theory Spec2Isabelle
  imports Main "HOL-Library.Multiset" "HOL-Library.Char_ord" "HOL-Library.List_Lexorder" "HOL-Library.Sublist"
begin

section \<open>Strings of the worker\<close>

text \<open>
  A JavaScript string is modelled as a \<^typ>\<open>string\<close> whose characters are the code
  units below 256 (Latin-1). The byte counts the worker takes from the store (the size of
  an object, the value of its own counter cell) are modelled as \<^typ>\<open>int\<close>. The sizes
  a client declares are not validated by the worker: they are numbers as JavaScript has
  them, modelled in the next section.
\<close>

text \<open>\<^verbatim>\<open>String.prototype.lastIndexOf\<close> for a one-character needle: \<open>-1\<close> when absent.\<close>

fun lastIndexOf :: "string \<Rightarrow> char \<Rightarrow> int" where
  "lastIndexOf [] c = -1"
| "lastIndexOf (x # xs) c =
     (let r = lastIndexOf xs c in
      if 0 \<le> r then r + 1 else if x = c then 0 else -1)"

text \<open>\<^verbatim>\<open>s.slice(i)\<close> for \<open>0 \<le> i\<close>.\<close>

definition slice :: "string \<Rightarrow> int \<Rightarrow> string" where
  "slice s i = drop (nat i) s"

text \<open>
  \<^verbatim>\<open>toLowerCase\<close>: the letters A to Z are mapped to a to z. No other code unit has a
  lower-case form among the ASCII letters of the extension allow-list.
\<close>

definition lower_char :: "char \<Rightarrow> char" where
  "lower_char c =
     (let n = (of_char c :: nat) in if 65 \<le> n \<and> n \<le> 90 then char_of (n + 32) else c)"

definition toLowerCase :: "string \<Rightarrow> string" where
  "toLowerCase s = map lower_char s"

text \<open>\<^verbatim>\<open>trim\<close>: white space of the Latin-1 range is TAB, LF, VT, FF, CR, SP and NBSP.\<close>

definition is_space :: "char \<Rightarrow> bool" where
  "is_space c = ((of_char c :: nat) \<in> {9, 10, 11, 12, 13, 32, 160})"

definition trim :: "string \<Rightarrow> string" where
  "trim s = rev (dropWhile is_space (rev (dropWhile is_space s)))"

section \<open>Numbers a client declares\<close>

text \<open>
  A number of JavaScript is a double. The model holds the doubles whose value is an
  integer, the two infinities and \<^verbatim>\<open>NaN\<close>. An integer of magnitude below \<open>2^53\<close> is a
  double; a larger one is rounded to 53 significant bits, to the nearest double and to the
  even one of two that are equally near, and becomes an infinity when the rounded value
  reaches \<open>2^1024\<close>. \<^verbatim>\<open>JSON.parse\<close> rounds an integer literal so, and an addition
  rounds its exact sum so.
\<close>

datatype number = Num int | Infinity | MinusInfinity | NaN

fun bitlen :: "nat \<Rightarrow> nat" where
  "bitlen n = (if n = 0 then 0 else Suc (bitlen (n div 2)))"

declare bitlen.simps [simp del]

definition round_double :: "int \<Rightarrow> number" where
  "round_double n =
     (if \<bar>n\<bar> < 2 ^ 53 then Num n
      else
        (let u = 2 ^ (bitlen (nat \<bar>n\<bar>) - 53);
             q = n div u;
             r = n mod u;
             m = (if 2 * r < u then q else if u < 2 * r then q + 1
                  else if even q then q else q + 1)
         in if 2 ^ 1024 \<le> \<bar>m * u\<bar> then (if 0 < n then Infinity else MinusInfinity)
            else Num (m * u)))"

text \<open>\<^verbatim>\<open>a + b\<close>\<close>

fun plus_number :: "number \<Rightarrow> number \<Rightarrow> number" where
  "plus_number (Num a) (Num b) = round_double (a + b)"
| "plus_number NaN y = NaN"
| "plus_number x NaN = NaN"
| "plus_number Infinity MinusInfinity = NaN"
| "plus_number MinusInfinity Infinity = NaN"
| "plus_number Infinity y = Infinity"
| "plus_number x Infinity = Infinity"
| "plus_number MinusInfinity y = MinusInfinity"
| "plus_number x MinusInfinity = MinusInfinity"

text \<open>\<^verbatim>\<open>a >= b\<close> for a finite \<open>b\<close>: false when \<open>a\<close> is \<^verbatim>\<open>NaN\<close>.\<close>

fun at_least :: "number \<Rightarrow> int \<Rightarrow> bool" where
  "at_least (Num a) b = (b \<le> a)"
| "at_least Infinity b = True"
| "at_least MinusInfinity b = False"
| "at_least NaN b = False"

text \<open>\<^verbatim>\<open>Number(x || 0)\<close> for a number \<open>x\<close>: zero and \<^verbatim>\<open>NaN\<close> are falsy.\<close>

fun Number_or_zero :: "number \<Rightarrow> number" where
  "Number_or_zero NaN = Num 0"
| "Number_or_zero x = x"

section \<open>Configuration\<close>

definition MAX_FILES_PER_BATCH :: nat where
  "MAX_FILES_PER_BATCH = 20"

text \<open>\<^verbatim>\<open>9.5 * 1024 * 1024 * 1024\<close>, an integer.\<close>

definition BYTES_LIMIT :: int where
  "BYTES_LIMIT = 10200547328"

definition ONE_WEEK_MS :: int where
  "ONE_WEEK_MS = 7 * 24 * 60 * 60 * 1000"

definition ALLOWED_MIME :: "string list" where
  "ALLOWED_MIME =
     [''text/plain'', ''text/markdown'', ''text/csv'', ''text/tab-separated-values'',
      ''application/json'', ''application/pdf'',
      ''application/vnd.openxmlformats-officedocument.wordprocessingml.document'',
      ''application/vnd.openxmlformats-officedocument.presentationml.presentation'',
      ''application/vnd.openxmlformats-officedocument.spreadsheetml.sheet'',
      ''text/html'', ''application/xml'', ''text/xml'', ''application/rtf'']"

definition ALLOWED_EXT :: "string list" where
  "ALLOWED_EXT =
     [''.txt'', ''.md'', ''.csv'', ''.tsv'', ''.json'', ''.pdf'', ''.docx'', ''.pptx'',
      ''.xlsx'', ''.html'', ''.xml'', ''.rtf'']"

section \<open>File type validation\<close>

text \<open>
  The server-mediated worker:
  \<^verbatim>\<open>
  function isAllowed(type: string, filename: string): boolean {
    if (type && ALLOWED_MIME.has(type)) return true;
    const dot = filename.lastIndexOf(".");
    if (dot >= 0) return ALLOWED_EXT.has(filename.slice(dot).toLowerCase());
    return false;
  }\<close>
\<close>

definition isAllowed1 :: "string \<Rightarrow> string \<Rightarrow> bool" where
  "isAllowed1 type filename =
     (if type \<noteq> [] \<and> type \<in> set ALLOWED_MIME then True
      else let dot = lastIndexOf filename (CHR ''.'') in
        if 0 \<le> dot then toLowerCase (slice filename dot) \<in> set ALLOWED_EXT
        else False)"

text \<open>
  The presigning worker; \<open>type\<close> and \<open>filename\<close> may be \<^verbatim>\<open>undefined\<close>:
  \<^verbatim>\<open>
  function isAllowed(type: string | undefined, filename: string | undefined) {
    const t = (type || "").trim();
    if (t && ALLOWED_MIME.has(t)) return true;
    const name = filename || "";
    const dot = name.lastIndexOf(".");
    if (dot >= 0) {
      const ext = name.slice(dot).toLowerCase();
      if (ALLOWED_EXT.has(ext)) return true;
    }
    if (!t || t === "application/octet-stream") return true;
    return false;
  }\<close>
\<close>

definition or_empty :: "string option \<Rightarrow> string" where
  "or_empty s = (case s of None \<Rightarrow> [] | Some v \<Rightarrow> v)"

definition isAllowed2 :: "string option \<Rightarrow> string option \<Rightarrow> bool" where
  "isAllowed2 type filename =
     (let t = trim (or_empty type) in
      if t \<noteq> [] \<and> t \<in> set ALLOWED_MIME then True
      else let name = or_empty filename; dot = lastIndexOf name (CHR ''.'') in
        if 0 \<le> dot \<and> toLowerCase (slice name dot) \<in> set ALLOWED_EXT then True
        else if t = [] \<or> t = ''application/octet-stream'' then True
        else False)"

text \<open>
  The rule in the words of the specification: the extension of a file name is its suffix
  from the last dot on, if it has a dot, compared in lower case; a type is generic when it
  is empty or \<^verbatim>\<open>application/octet-stream\<close>.
\<close>

definition extension :: "string \<Rightarrow> string option" where
  "extension name =
     (if CHR ''.'' \<in> set name
      then Some (CHR ''.'' # rev (takeWhile (\<lambda>c. c \<noteq> CHR ''.'') (rev name)))
      else None)"

definition ext_allowed :: "string \<Rightarrow> bool" where
  "ext_allowed name =
     (case extension name of None \<Rightarrow> False | Some e \<Rightarrow> toLowerCase e \<in> set ALLOWED_EXT)"

definition generic_type :: "string \<Rightarrow> bool" where
  "generic_type t = (t = [] \<or> t = ''application/octet-stream'')"

definition spec_allowed :: "string \<Rightarrow> string \<Rightarrow> bool" where
  "spec_allowed type filename =
     (type \<in> set ALLOWED_MIME \<or> ext_allowed filename \<or> generic_type type)"

section \<open>The platform: object store, key-value store, failures\<close>

text \<open>
  The bindings \<^verbatim>\<open>FILES\<close> (an R2 bucket) and \<^verbatim>\<open>FILES_KV\<close> (a KV namespace) belong to
  the platform. An object carries its payload, its upload time (milliseconds since the
  epoch), its HTTP metadata and its custom metadata; its size is the length of its payload.
  A bucket is the list of its objects with their keys, in the order of a listing
  (ascending keys).
\<close>

type_synonym bytes = "nat list"

record http_metadata =
  contentType :: string
  contentDisposition :: string

record r2object =
  body :: bytes
  uploaded :: int
  httpMetadata :: http_metadata
  customMetadata :: "string \<rightharpoonup> string"

definition size_of :: "r2object \<Rightarrow> int" where
  "size_of obj = int (length (body obj))"

type_synonym r2bucket = "(string \<times> r2object) list"

text \<open>
  The worker uses two kinds of keys of the namespace: the cell \<^verbatim>\<open>used_bytes\<close>, which
  holds \<^verbatim>\<open>String(n)\<close> for a number \<open>n\<close> and is read back with \<^verbatim>\<open>Number\<close>, and the
  snapshots \<^verbatim>\<open>pending:...\<close>, which hold the JSON text of a pin flag and a list of keys
  with their declared sizes. The model stores the number and the snapshot themselves.
  \<^verbatim>\<open>String(n)\<close> is never empty, so a cell that is present is truthy.
\<close>

record kv =
  used_bytes :: "int option"
  pending :: "string \<rightharpoonup> bool \<times> (string \<times> number) list"

record env =
  FILES :: r2bucket
  FILES_KV :: kv
  R2_ACCESS_KEY_ID :: "string option"
  R2_SECRET_ACCESS_KEY :: "string option"
  R2_ACCOUNT_ID :: "string option"
  R2_BUCKET :: "string option"

text \<open>
  Every call of a binding may throw. Which calls throw is a parameter of the platform, as
  are the clock, the page size of a listing, the date functions, \<^verbatim>\<open>decodeURIComponent\<close>
  (\<open>None\<close> when it throws), the UUID generator and the primitives of \<^verbatim>\<open>crypto.subtle\<close>.
  The clock does not advance within one request.
\<close>

datatype io_op =
  KV_get string | KV_put string
| R2_list "string option" | R2_head string | R2_get string | R2_put string | R2_delete string

record platform =
  fails :: "io_op \<Rightarrow> bool"
  now :: int
  list_limit :: nat
  Date_parse :: "string \<Rightarrow> int option"
  Date_toString :: "int \<Rightarrow> string"
  toISOString :: "int \<Rightarrow> string"
  decodeURIComponent :: "string \<Rightarrow> string option"
  randomUUID :: "nat \<Rightarrow> string"
  hmac_sha256 :: "bytes \<Rightarrow> bytes \<Rightarrow> bytes"
  sha256 :: "bytes \<Rightarrow> bytes"

datatype 'a outcome = Throws | Returns 'a

definition nowISO :: "platform \<Rightarrow> string" where
  "nowISO P = toISOString P (now P)"

subsection \<open>R2\<close>

definition r2_head :: "platform \<Rightarrow> env \<Rightarrow> string \<Rightarrow> r2object option outcome" where
  "r2_head P e k = (if fails P (R2_head k) then Throws else Returns (map_of (FILES e) k))"

definition r2_get :: "platform \<Rightarrow> env \<Rightarrow> string \<Rightarrow> r2object option outcome" where
  "r2_get P e k = (if fails P (R2_get k) then Throws else Returns (map_of (FILES e) k))"

text \<open>A put replaces the object of the key or inserts it at its place in the key order.\<close>

fun store_put :: "string \<Rightarrow> r2object \<Rightarrow> r2bucket \<Rightarrow> r2bucket" where
  "store_put k v [] = [(k, v)]"
| "store_put k v ((k', v') # b) =
     (if k < k' then (k, v) # (k', v') # b
      else if k = k' then (k, v) # b
      else (k', v') # store_put k v b)"

definition r2_put ::
  "platform \<Rightarrow> env \<Rightarrow> string \<Rightarrow> bytes \<Rightarrow> http_metadata \<Rightarrow> (string \<rightharpoonup> string) \<Rightarrow> env outcome"
where
  "r2_put P e k payload hm cm =
     (if fails P (R2_put k) then Throws
      else Returns (e\<lparr>FILES :=
        store_put k \<lparr>body = payload, uploaded = now P, httpMetadata = hm, customMetadata = cm\<rparr>
          (FILES e)\<rparr>))"

definition r2_delete :: "platform \<Rightarrow> env \<Rightarrow> string \<Rightarrow> env outcome" where
  "r2_delete P e k =
     (if fails P (R2_delete k) then Throws
      else Returns (e\<lparr>FILES := filter (\<lambda>(k', v). k' \<noteq> k) (FILES e)\<rparr>))"

text \<open>
  A listing returns the objects after the cursor, at most one page of them, and a cursor
  when more objects remain. A page holds at least one object. The cursor of R2 is an opaque
  token that is never empty; the model takes the last key of the page for it.
\<close>

record list_result =
  objects :: "(string \<times> r2object) list"
  truncated :: bool
  cursor :: "string option"

definition after_cursor :: "string option \<Rightarrow> string \<Rightarrow> bool" where
  "after_cursor c k = (case c of None \<Rightarrow> True | Some c' \<Rightarrow> c' < k)"

definition page_size :: "nat \<Rightarrow> nat" where
  "page_size lim = max 1 lim"

definition list_page :: "nat \<Rightarrow> r2bucket \<Rightarrow> string option \<Rightarrow> list_result" where
  "list_page lim b c =
     (let rest = filter (\<lambda>(k, v). after_cursor c k) b;
          page = take (page_size lim) rest;
          more = (page_size lim < length rest)
      in \<lparr>objects = page, truncated = more,
          cursor = (if more then Some (fst (last page)) else None)\<rparr>)"

text \<open>\<^verbatim>\<open>list.truncated ? list.cursor : undefined\<close>\<close>

definition next_cursor :: "list_result \<Rightarrow> string option" where
  "next_cursor list = (if truncated list then cursor list else None)"

definition r2_list :: "platform \<Rightarrow> env \<Rightarrow> string option \<Rightarrow> list_result outcome" where
  "r2_list P e c =
     (if fails P (R2_list c) then Throws else Returns (list_page (list_limit P) (FILES e) c))"

subsection \<open>KV\<close>

definition kv_get_used :: "platform \<Rightarrow> env \<Rightarrow> int option outcome" where
  "kv_get_used P e =
     (if fails P (KV_get ''used_bytes'') then Throws else Returns (used_bytes (FILES_KV e)))"

definition kv_put_used :: "platform \<Rightarrow> env \<Rightarrow> int \<Rightarrow> env outcome" where
  "kv_put_used P e n =
     (if fails P (KV_put ''used_bytes'') then Throws
      else Returns (e\<lparr>FILES_KV := (FILES_KV e)\<lparr>used_bytes := Some n\<rparr>\<rparr>))"

text \<open>
  \<^verbatim>\<open>x || 0\<close> for a number \<open>x\<close>, and \<^verbatim>\<open>Number(v) || 0\<close> for the value \<open>v\<close> read from the
  cell (\<^verbatim>\<open>null\<close> when absent, and \<^verbatim>\<open>Number(null)\<close> is 0).
\<close>

definition or_0 :: "int \<Rightarrow> int" where
  "or_0 x = (if x \<noteq> 0 then x else 0)"

definition Number_or_0 :: "int option \<Rightarrow> int" where
  "Number_or_0 v = (case v of None \<Rightarrow> 0 | Some n \<Rightarrow> or_0 n)"

section \<open>The usage counter\<close>

text \<open>
  The fallback of \<^verbatim>\<open>getUsedBytes\<close>, the same in both workers (the first also asks
  the listing to include the custom metadata):
  \<^verbatim>\<open>
  let cursor: string | undefined;
  let total = 0;
  do {
    const list = await env.FILES.list({ cursor });
    for (const o of list.objects) total += o.size;
    cursor = list.truncated ? list.cursor : undefined;
  } while (cursor);\<close>
  The loop ends because every cursor leaves fewer objects to list.
\<close>

definition remaining :: "r2bucket \<Rightarrow> string option \<Rightarrow> nat" where
  "remaining b c =
     (case c of None \<Rightarrow> Suc (length b) | Some x \<Rightarrow> length (filter (\<lambda>(k, v). x < k) b))"

lemma list_page_cursor_in:
  assumes "cursor (list_page lim b c) = Some c'"
  shows "\<exists>v. (c', v) \<in> set b \<and> after_cursor c c'"
proof -
  let ?rest = "filter (\<lambda>(k, v). after_cursor c k) b"
  let ?page = "take (page_size lim) ?rest"
  from assms have more: "page_size lim < length ?rest" and c': "c' = fst (last ?page)"
    by (auto simp: list_page_def Let_def split: if_splits)
  have "0 < page_size lim" by (simp add: page_size_def)
  with more have "?page \<noteq> []" by auto
  then have "last ?page \<in> set ?page" by (rule last_in_set)
  then have "last ?page \<in> set ?rest" by (rule in_set_takeD)
  moreover obtain k v where kv: "last ?page = (k, v)" by (rule prod.exhaust)
  ultimately have "(k, v) \<in> set ?rest" by (simp only:)
  then have "(k, v) \<in> set b" and "after_cursor c k" by simp_all
  moreover have "c' = k" using c' kv by simp
  ultimately show ?thesis by blast
qed

lemma list_page_advances:
  assumes "cursor (list_page lim b c) = Some c'"
  shows "remaining b (Some c') < remaining b c"
proof -
  from list_page_cursor_in [OF assms] obtain v where
    mem: "(c', v) \<in> set b" and aft: "after_cursor c c'" by blast
  show ?thesis
  proof (cases c)
    case None
    have "length (filter (\<lambda>(k, v). c' < k) b) \<le> length b" by (rule length_filter_le)
    then have "length (filter (\<lambda>(k, v). c' < k) b) < Suc (length b)" by (rule le_imp_less_Suc)
    then show ?thesis using None by (simp add: remaining_def)
  next
    case (Some x)
    with aft have lt: "x < c'" by (simp add: after_cursor_def)
    let ?xs = "filter (\<lambda>(k, v). x < k) b"
    have "filter (\<lambda>(k, v). c' < k) ?xs = filter (\<lambda>(k, v). c' < k) b"
      using lt by (auto intro!: filter_cong)
    moreover have "(c', v) \<in> set ?xs" using mem lt by simp
    then have "length (filter (\<lambda>(k, v). c' < k) ?xs) < length ?xs"
      by (rule length_filter_less) simp
    ultimately show ?thesis using Some by (simp add: remaining_def)
  qed
qed

function sum_listing :: "platform \<Rightarrow> env \<Rightarrow> string option \<Rightarrow> int \<Rightarrow> int outcome" where
  "sum_listing P e c tot =
     (case r2_list P e c of
        Throws \<Rightarrow> Throws
      | Returns list \<Rightarrow>
          (let tot' = fold (\<lambda>(k, obj) t. t + size_of obj) (objects list) tot in
           case next_cursor list of
             None \<Rightarrow> Returns tot'
           | Some c' \<Rightarrow> sum_listing P e (Some c') tot'))"
  by pat_completeness auto
termination
proof (relation "measure (\<lambda>(P, e, c, tot). remaining (FILES e) c)")
  show "wf (measure (\<lambda>(P, e, c, tot). remaining (FILES e) c))" by simp
next
  fix P e c tot list tot' c'
  assume "r2_list P e c = Returns list" and "next_cursor list = Some c'"
  then have "cursor (list_page (list_limit P) (FILES e) c) = Some c'"
    by (auto simp: r2_list_def next_cursor_def split: if_splits)
  then show "((P, e, Some c', tot'), (P, e, c, tot))
      \<in> measure (\<lambda>(P, e, c, tot). remaining (FILES e) c)"
    by (simp add: list_page_advances)
qed

declare sum_listing.simps [simp del]

text \<open>
  The server-mediated worker; any failing call throws:
  \<^verbatim>\<open>
  const v = await env.FILES_KV.get("used_bytes");
  if (v) return Number(v);
  ... the listing loop ...
  await env.FILES_KV.put("used_bytes", String(total));
  return total;\<close>
\<close>

definition getUsedBytes1 :: "platform \<Rightarrow> env \<Rightarrow> int outcome \<times> env" where
  "getUsedBytes1 P e =
     (case kv_get_used P e of
        Throws \<Rightarrow> (Throws, e)
      | Returns (Some v) \<Rightarrow> (Returns v, e)
      | Returns None \<Rightarrow>
          (case sum_listing P e None 0 of
             Throws \<Rightarrow> (Throws, e)
           | Returns tot \<Rightarrow>
               (case kv_put_used P e tot of
                  Throws \<Rightarrow> (Throws, e)
                | Returns e' \<Rightarrow> (Returns tot, e'))))"

text \<open>
  The presigning worker; it never throws:
  \<^verbatim>\<open>
  try {
    const v = await env.FILES_KV.get("used_bytes");
    if (v) return Number(v);
  } catch {}
  try {
    ... the listing loop ...
    await env.FILES_KV.put("used_bytes", String(total)).catch(() => {});
    return total;
  } catch {
    return 0;
  }\<close>
\<close>

definition getUsedBytes2 :: "platform \<Rightarrow> env \<Rightarrow> int \<times> env" where
  "getUsedBytes2 P e =
     (case (case kv_get_used P e of Throws \<Rightarrow> None | Returns v \<Rightarrow> v) of
        Some v \<Rightarrow> (v, e)
      | None \<Rightarrow>
          (case sum_listing P e None 0 of
             Throws \<Rightarrow> (0, e)
           | Returns tot \<Rightarrow>
               (case kv_put_used P e tot of
                  Throws \<Rightarrow> (tot, e)
                | Returns e' \<Rightarrow> (tot, e'))))"

text \<open>
  The server-mediated worker:
  \<^verbatim>\<open>
  await env.FILES_KV.atomic().get("used_bytes")
    .mutate((v) => String((Number(v) || 0) + delta)).commit();\<close>
  \<^verbatim>\<open>FILES_KV\<close> is declared a \<^verbatim>\<open>KVNamespace\<close>, which has the methods \<^verbatim>\<open>get\<close>,
  \<^verbatim>\<open>getWithMetadata\<close>, \<^verbatim>\<open>put\<close>, \<^verbatim>\<open>delete\<close> and \<^verbatim>\<open>list\<close> and no \<^verbatim>\<open>atomic\<close> (the
  presigning worker notes it: \<^verbatim>\<open>KV-safe size counter (no .atomic())\<close>). The call of
  \<^verbatim>\<open>env.FILES_KV.atomic\<close> therefore throws a \<^verbatim>\<open>TypeError\<close>, before the cell is read or
  written, whatever the delta.
\<close>

definition bumpUsedBytes1 :: "platform \<Rightarrow> env \<Rightarrow> int \<Rightarrow> env outcome" where
  "bumpUsedBytes1 P e delta = Throws"

text \<open>
  The presigning worker reads the cell, then writes it:
  \<^verbatim>\<open>
  const cur = Number(await env.FILES_KV.get(key)) || 0;
  await env.FILES_KV.put(key, String(cur + delta));\<close>
\<close>

definition bumpUsedBytes2 :: "platform \<Rightarrow> env \<Rightarrow> int \<Rightarrow> env outcome" where
  "bumpUsedBytes2 P e delta =
     (case kv_get_used P e of
        Throws \<Rightarrow> Throws
      | Returns v \<Rightarrow> kv_put_used P e (Number_or_0 v + delta))"

section \<open>The retention sweep\<close>

text \<open>
  The loop of the cleanup, the same in both workers:
  \<^verbatim>\<open>
  const cutoff = Date.now() - ONE_WEEK_MS;
  do {
    const list = await env.FILES.list({ cursor, include: ["customMetadata"] });
    for (const o of list.objects) {
      const pinned = o.customMetadata?.pinned === "true";
      const last = Date.parse(o.customMetadata?.last_accessed || o.uploaded?.toString() || "");
      if (!pinned && (isFinite(last) ? last < cutoff : true)) {
        await env.FILES.delete(o.key);
        deleted++;
        freed += o.size;
      }
    }
    cursor = list.truncated ? list.cursor : undefined;
  } while (cursor);\<close>
  \<^verbatim>\<open>Date.parse\<close> yields a number or \<^verbatim>\<open>NaN\<close> (here \<open>None\<close>); \<open>a || b\<close> on strings
  is \<open>a\<close> unless \<open>a\<close> is undefined or empty.
\<close>

definition js_or :: "string option \<Rightarrow> string \<Rightarrow> string" where
  "js_or a b = (case a of None \<Rightarrow> b | Some s \<Rightarrow> if s \<noteq> [] then s else b)"

definition eligible :: "platform \<Rightarrow> int \<Rightarrow> r2object \<Rightarrow> bool" where
  "eligible P cutoff obj =
     (let pinned = (customMetadata obj ''pinned'' = Some ''true'');
          last_t = Date_parse P
            (js_or (customMetadata obj ''last_accessed'')
               (js_or (Some (Date_toString P (uploaded obj))) []))
      in \<not> pinned \<and> (case last_t of Some t \<Rightarrow> t < cutoff | None \<Rightarrow> True))"

fun sweep_page ::
  "platform \<Rightarrow> int \<Rightarrow> (string \<times> r2object) list \<Rightarrow> nat \<times> int \<times> env \<Rightarrow> (nat \<times> int) outcome \<times> env"
where
  "sweep_page P cutoff [] (deleted, freed, e) = (Returns (deleted, freed), e)"
| "sweep_page P cutoff ((k, obj) # objs) (deleted, freed, e) =
     (if eligible P cutoff obj then
        (case r2_delete P e k of
           Throws \<Rightarrow> (Throws, e)
         | Returns e' \<Rightarrow> sweep_page P cutoff objs (Suc deleted, freed + size_of obj, e'))
      else sweep_page P cutoff objs (deleted, freed, e))"

lemma length_filter_filter_le: "length (filter Q (filter R xs)) \<le> length (filter Q xs)"
  by (induction xs) auto

lemma remaining_filter_le: "remaining (filter R b) c \<le> remaining b c"
  by (cases c) (simp_all add: remaining_def length_filter_filter_le del: filter_filter)

lemma r2_delete_remaining:
  "r2_delete P e k = Returns e' \<Longrightarrow> remaining (FILES e') c \<le> remaining (FILES e) c"
  by (auto simp: r2_delete_def remaining_filter_le split: if_splits)

lemma sweep_page_remaining:
  "sweep_page P cutoff objs (d, f, e) = (r, e') \<Longrightarrow>
   remaining (FILES e') c \<le> remaining (FILES e) c"
proof (induction objs arbitrary: d f e)
  case Nil
  then show ?case by simp
next
  case (Cons x objs)
  obtain k obj where x: "x = (k, obj)" by (rule prod.exhaust)
  show ?case
  proof (cases "eligible P cutoff obj")
    case False
    with Cons x show ?thesis by simp
  next
    case True
    show ?thesis
    proof (cases "r2_delete P e k")
      case Throws
      with Cons.prems x True show ?thesis by simp
    next
      case (Returns e1)
      with Cons.prems x True
      have "sweep_page P cutoff objs (Suc d, f + size_of obj, e1) = (r, e')" by simp
      then have "remaining (FILES e') c \<le> remaining (FILES e1) c" by (rule Cons.IH)
      also have "\<dots> \<le> remaining (FILES e) c" using Returns by (rule r2_delete_remaining)
      finally show ?thesis .
    qed
  qed
qed

function sweep_loop ::
  "platform \<Rightarrow> int \<Rightarrow> string option \<Rightarrow> nat \<times> int \<times> env \<Rightarrow> (nat \<times> int) outcome \<times> env"
where
  "sweep_loop P cutoff c (deleted, freed, e) =
     (case r2_list P e c of
        Throws \<Rightarrow> (Throws, e)
      | Returns list \<Rightarrow>
          (case sweep_page P cutoff (objects list) (deleted, freed, e) of
             (Throws, e') \<Rightarrow> (Throws, e')
           | (Returns (deleted', freed'), e') \<Rightarrow>
               (case next_cursor list of
                  None \<Rightarrow> (Returns (deleted', freed'), e')
                | Some c' \<Rightarrow> sweep_loop P cutoff (Some c') (deleted', freed', e'))))"
  by pat_completeness auto
termination
proof (relation "measure (\<lambda>(P, cutoff, c, deleted, freed, e). remaining (FILES e) c)")
  show "wf (measure (\<lambda>(P, cutoff, c, deleted, freed, e). remaining (FILES e) c))" by simp
next
  fix P cutoff c deleted freed e list r e' dj deleted' freed' c'
  assume l: "r2_list P e c = Returns list"
    and p: "(r, e') = sweep_page P cutoff (objects list) (deleted, freed, e)"
    and c': "next_cursor list = Some c'"
  from l c' have "cursor (list_page (list_limit P) (FILES e) c) = Some c'"
    by (auto simp: r2_list_def next_cursor_def split: if_splits)
  then have "remaining (FILES e) (Some c') < remaining (FILES e) c"
    by (rule list_page_advances)
  moreover from p [symmetric] have "remaining (FILES e') (Some c') \<le> remaining (FILES e) (Some c')"
    by (rule sweep_page_remaining)
  ultimately show "((P, cutoff, Some c', deleted', freed', e'), (P, cutoff, c, deleted, freed, e))
      \<in> measure (\<lambda>(P, cutoff, c, deleted, freed, e). remaining (FILES e) c)"
    by simp
qed

declare sweep_loop.simps [simp del]

section \<open>Requests and responses\<close>

text \<open>
  A response is its status and its payload. The wording of the quota message is left out.
  A handler returns its response, or throws, and leaves the bindings in a new state.
\<close>

record upload_result =
  res_key :: string
  res_name :: string
  res_size :: int
  res_type :: string
  res_pinned :: bool

record upload_slot =
  slot_key :: string
  slot_url :: string
  slot_name :: string
  slot_size :: number
  slot_type :: "string option"

datatype payload =
  Text string
| Failure string
| QuotaInfo int int bool
| QuotaError int int
| Uploaded "upload_result list"
| UploadUrls "upload_slot list" bool
| Confirmed nat int
| OkOnly
| Touched string "string option"
| Pinned string "bool option"
| CleanupDone nat int

type_synonym response = "nat \<times> payload"

definition String_bool :: "bool \<Rightarrow> string" where
  "String_bool b = (if b then ''true'' else ''false'')"

subsection \<open>Quota\<close>

text \<open>
  \<^verbatim>\<open>
  const used = await getUsedBytes(env);
  return json({ usedBytes: used, limitBytes: BYTES_LIMIT, okToUpload: used < BYTES_LIMIT });\<close>
\<close>

definition handleQuota :: "platform \<Rightarrow> env \<Rightarrow> response outcome \<times> env" where
  "handleQuota P e =
     (case getUsedBytes1 P e of
        (Throws, e') \<Rightarrow> (Throws, e')
      | (Returns used, e') \<Rightarrow>
          (Returns (200, QuotaInfo used BYTES_LIMIT (used < BYTES_LIMIT)), e'))"

definition fetch_quota :: "platform \<Rightarrow> env \<Rightarrow> response outcome \<times> env" where
  "fetch_quota P e =
     (case getUsedBytes2 P e of
        (used, e') \<Rightarrow> (Returns (200, QuotaInfo used BYTES_LIMIT (used < BYTES_LIMIT)), e'))"

subsection \<open>Delete\<close>

text \<open>
  \<^verbatim>\<open>
  const head = await env.FILES.head(key);
  if (!head) return new Response("Not found", { status: 404 });
  await env.FILES.delete(key);
  await bumpUsedBytes(env, -Number(head.size || 0));
  return json({ ok: true });\<close>
\<close>

definition handleDelete :: "platform \<Rightarrow> env \<Rightarrow> string \<Rightarrow> response outcome \<times> env" where
  "handleDelete P e key =
     (case r2_head P e key of
        Throws \<Rightarrow> (Throws, e)
      | Returns None \<Rightarrow> (Returns (404, Text ''Not found''), e)
      | Returns (Some head) \<Rightarrow>
          (case r2_delete P e key of
             Throws \<Rightarrow> (Throws, e)
           | Returns e1 \<Rightarrow>
               (case bumpUsedBytes1 P e1 (- or_0 (size_of head)) of
                  Throws \<Rightarrow> (Throws, e1)
                | Returns e2 \<Rightarrow> (Returns (200, OkOnly), e2))))"

definition fetch_delete :: "platform \<Rightarrow> env \<Rightarrow> string \<Rightarrow> response outcome \<times> env" where
  "fetch_delete P e key =
     (case r2_head P e key of
        Throws \<Rightarrow> (Throws, e)
      | Returns None \<Rightarrow> (Returns (404, Text ''Not found''), e)
      | Returns (Some head) \<Rightarrow>
          (case r2_delete P e key of
             Throws \<Rightarrow> (Throws, e)
           | Returns e1 \<Rightarrow>
               (case bumpUsedBytes2 P e1 (- or_0 (size_of head)) of
                  Throws \<Rightarrow> (Throws, e1)
                | Returns e2 \<Rightarrow> (Returns (200, OkOnly), e2))))"

subsection \<open>Cleanup\<close>

text \<open>
  \<^verbatim>\<open>
  if (token !== "cron") return new Response("forbidden", { status: 403 });
  ... the sweep loop ...
  if (freed) await bumpUsedBytes(env, -freed);
  return json({ ok: true, deleted, freedBytes: freed });\<close>
\<close>

definition handleCleanup :: "platform \<Rightarrow> env \<Rightarrow> string option \<Rightarrow> response outcome \<times> env" where
  "handleCleanup P e token =
     (if token \<noteq> Some ''cron'' then (Returns (403, Text ''forbidden''), e)
      else
        (case sweep_loop P (now P - ONE_WEEK_MS) None (0, 0, e) of
           (Throws, e') \<Rightarrow> (Throws, e')
         | (Returns (deleted, freed), e') \<Rightarrow>
             if freed \<noteq> 0 then
               (case bumpUsedBytes1 P e' (- freed) of
                  Throws \<Rightarrow> (Throws, e')
                | Returns e'' \<Rightarrow> (Returns (200, CleanupDone deleted freed), e''))
             else (Returns (200, CleanupDone deleted freed), e')))"

text \<open>The same lines stand in the branch of the presigning worker's router.\<close>

definition scheduled_branch :: "platform \<Rightarrow> env \<Rightarrow> string option \<Rightarrow> response outcome \<times> env" where
  "scheduled_branch P e token =
     (if token \<noteq> Some ''cron'' then (Returns (403, Text ''forbidden''), e)
      else
        (case sweep_loop P (now P - ONE_WEEK_MS) None (0, 0, e) of
           (Throws, e') \<Rightarrow> (Throws, e')
         | (Returns (deleted, freed), e') \<Rightarrow>
             if freed \<noteq> 0 then
               (case bumpUsedBytes2 P e' (- freed) of
                  Throws \<Rightarrow> (Throws, e')
                | Returns e'' \<Rightarrow> (Returns (200, CleanupDone deleted freed), e''))
             else (Returns (200, CleanupDone deleted freed), e')))"

subsection \<open>Confirm\<close>

text \<open>
  \<^verbatim>\<open>
  if (!Array.isArray(keys) || keys.length === 0)
    return json({ ok: false, message: "No keys." }, 400);
  let updated = 0;
  let total = 0;
  for (const key of keys) {
    const head = await env.FILES.head(key);
    if (!head) continue; // not uploaded or wrong key
    total += Number(head.size || 0);
    const obj = await env.FILES.get(key);
    if (!obj) continue;
    await env.FILES.put(key, obj.body!, {
      httpMetadata: head.httpMetadata,
      customMetadata: {
        ...(head.customMetadata || {}),
        pinned: String(Boolean(pin)),
        last_accessed: nowISO(),
      },
    });
    updated++;
  }
  if (total) await bumpUsedBytes(env, total);
  return json({ ok: true, updated, totalBytes: total });\<close>
\<close>

fun confirm_loop ::
  "platform \<Rightarrow> bool \<Rightarrow> string list \<Rightarrow> nat \<times> int \<times> env \<Rightarrow> (nat \<times> int) outcome \<times> env"
where
  "confirm_loop P pin [] (updated, tot, e) = (Returns (updated, tot), e)"
| "confirm_loop P pin (key # keys) (updated, tot, e) =
     (case r2_head P e key of
        Throws \<Rightarrow> (Throws, e)
      | Returns None \<Rightarrow> confirm_loop P pin keys (updated, tot, e)
      | Returns (Some head) \<Rightarrow>
          (let tot' = tot + or_0 (size_of head) in
           case r2_get P e key of
             Throws \<Rightarrow> (Throws, e)
           | Returns None \<Rightarrow> confirm_loop P pin keys (updated, tot', e)
           | Returns (Some obj) \<Rightarrow>
               (case r2_put P e key (body obj) (httpMetadata head)
                       ((customMetadata head)
                          (''pinned'' \<mapsto> String_bool pin, ''last_accessed'' \<mapsto> nowISO P)) of
                  Throws \<Rightarrow> (Throws, e)
                | Returns e' \<Rightarrow> confirm_loop P pin keys (Suc updated, tot', e'))))"

definition fetch_confirm ::
  "platform \<Rightarrow> env \<Rightarrow> string list \<Rightarrow> bool \<Rightarrow> response outcome \<times> env"
where
  "fetch_confirm P e keys pin =
     (if keys = [] then (Returns (400, Failure ''No keys.''), e)
      else
        (case confirm_loop P pin keys (0, 0, e) of
           (Throws, e') \<Rightarrow> (Throws, e')
         | (Returns (updated, tot), e') \<Rightarrow>
             if tot \<noteq> 0 then
               (case bumpUsedBytes2 P e' tot of
                  Throws \<Rightarrow> (Throws, e')
                | Returns e'' \<Rightarrow> (Returns (200, Confirmed updated tot), e''))
             else (Returns (200, Confirmed updated tot), e')))"

section \<open>Presigned URLs\<close>

text \<open>
  \<^verbatim>\<open>TextEncoder.encode\<close> on code units below 256: one byte below 128, two bytes above.
\<close>

definition utf8 :: "string \<Rightarrow> bytes" where
  "utf8 s = concat (map (\<lambda>c. let n = (of_char c :: nat) in
                                if n < 128 then [n] else [192 + n div 64, 128 + n mod 64]) s)"

definition hex_digit :: "string \<Rightarrow> nat \<Rightarrow> char" where
  "hex_digit digits n = digits ! (n mod 16)"

text \<open>
  \<^verbatim>\<open>[...new Uint8Array(u8)].map((b) => b.toString(16).padStart(2, "0")).join("")\<close>
\<close>

definition u8ToHex :: "bytes \<Rightarrow> string" where
  "u8ToHex u8 =
     concat (map (\<lambda>b. [hex_digit ''0123456789abcdef'' (b div 16),
                         hex_digit ''0123456789abcdef'' b]) u8)"

definition percent :: "nat \<Rightarrow> string" where
  "percent b = [CHR ''%'', hex_digit ''0123456789ABCDEF'' (b div 16),
                hex_digit ''0123456789ABCDEF'' b]"

definition alphanumeric :: "char \<Rightarrow> bool" where
  "alphanumeric c =
     (let n = (of_char c :: nat) in
      (48 \<le> n \<and> n \<le> 57) \<or> (65 \<le> n \<and> n \<le> 90) \<or> (97 \<le> n \<and> n \<le> 122))"

text \<open>
  \<^verbatim>\<open>encodeURIComponent\<close> keeps letters, digits and \<^verbatim>\<open>- _ . ! ~ * ' ( )\<close>; the
  serialisation of \<^verbatim>\<open>URLSearchParams\<close> keeps letters, digits and \<^verbatim>\<open>* - . _\<close> and writes
  a space as \<^verbatim>\<open>+\<close>. Both write every other byte as \<^verbatim>\<open>%XX\<close>.
\<close>

definition encodeURIComponent :: "string \<Rightarrow> string" where
  "encodeURIComponent s =
     concat (map (\<lambda>c. if alphanumeric c \<or> c \<in> set (''-_.!~*()'' @ [CHR 0x27]) then [c]
                       else concat (map percent (utf8 [c]))) s)"

definition form_urlencode :: "string \<Rightarrow> string" where
  "form_urlencode s =
     concat (map (\<lambda>c. if c = CHR '' '' then ''+''
                       else if alphanumeric c \<or> c \<in> set ''*-._'' then [c]
                       else concat (map percent (utf8 [c]))) s)"

fun join :: "string \<Rightarrow> string list \<Rightarrow> string" where
  "join sep [] = []"
| "join sep [x] = x"
| "join sep (x # y # ys) = x @ sep @ join sep (y # ys)"

definition URLSearchParams_toString :: "(string \<times> string) list \<Rightarrow> string" where
  "URLSearchParams_toString qp =
     join ''&'' (map (\<lambda>(name, val). form_urlencode name @ ''='' @ form_urlencode val) qp)"

text \<open>\<^verbatim>\<open>String(n)\<close> for an integer: its decimal digits.\<close>

fun digits :: "nat \<Rightarrow> string" where
  "digits n =
     (if n < 10 then [''0123456789'' ! n] else digits (n div 10) @ [''0123456789'' ! (n mod 10)])"

declare digits.simps [simp del]

definition String_int :: "int \<Rightarrow> string" where
  "String_int i = (if i < 0 then CHR ''-'' # digits (nat (- i)) else digits (nat i))"

text \<open>\<^verbatim>\<open>.replace(/[:-]|\.\d{3}/g, "")\<close>\<close>

definition is_digit :: "char \<Rightarrow> bool" where
  "is_digit c = (let n = (of_char c :: nat) in 48 \<le> n \<and> n \<le> 57)"

fun strip_separators :: "string \<Rightarrow> string" where
  "strip_separators [] = []"
| "strip_separators (c # cs) =
     (if c = CHR '':'' \<or> c = CHR ''-'' then strip_separators cs
      else if c = CHR ''.'' \<and> 3 \<le> length cs \<and> list_all is_digit (take 3 cs)
        then strip_separators (drop 3 cs)
      else c # strip_separators cs)"

text \<open>
  \<^verbatim>\<open>
  async function hmac(key: ArrayBuffer | string, msg: string) {
    const enc = new TextEncoder();
    const raw = typeof key === "string" ? enc.encode(key) : key;
    const k = await crypto.subtle.importKey("raw", raw, { name: "HMAC", hash: "SHA-256" }, ...);
    return crypto.subtle.sign("HMAC", k, enc.encode(msg));
  }
  async function sha256Hex(s: string) {
    const d = await crypto.subtle.digest("SHA-256", new TextEncoder().encode(s));
    return u8ToHex(d);
  }\<close>
\<close>

datatype hmac_key = KeyString string | KeyBuffer bytes

definition hmac :: "platform \<Rightarrow> hmac_key \<Rightarrow> string \<Rightarrow> bytes" where
  "hmac P key msg =
     hmac_sha256 P (case key of KeyString s \<Rightarrow> utf8 s | KeyBuffer raw \<Rightarrow> raw) (utf8 msg)"

definition sha256Hex :: "platform \<Rightarrow> string \<Rightarrow> string" where
  "sha256Hex P s = u8ToHex (sha256 P (utf8 s))"

text \<open>
  \<^verbatim>\<open>presignPutUrl\<close>, line by line:
  \<^verbatim>\<open>
  const region = opts.region ?? "auto";
  const host = `${opts.accountId}.r2.cloudflarestorage.com`;
  const canonicalUri = `/${opts.bucket}/${encodeURIComponent(opts.key)}`;
  const method = "PUT";
  const now = new Date();
  const amzDate = now.toISOString().replace(/[:-]|\.\d{3}/g, "").slice(0, 15) + "Z";
  const datestamp = amzDate.slice(0, 8);
  const algorithm = "AWS4-HMAC-SHA256";
  const credentialScope = `${datestamp}/${region}/s3/aws4_request`;
  const qp = new URLSearchParams({
    "X-Amz-Algorithm": algorithm,
    "X-Amz-Credential": `${opts.accessKeyId}/${credentialScope}`,
    "X-Amz-Date": amzDate,
    "X-Amz-Expires": String(opts.expiresSec ?? 600),
    "X-Amz-SignedHeaders": "host",
  });
  const canonicalHeaders = `host:${host}\n`;
  const signedHeaders = "host";
  const payloadHash = "UNSIGNED-PAYLOAD";
  const canonicalRequest = [method, canonicalUri, qp.toString(), canonicalHeaders,
    signedHeaders, payloadHash].join("\n");
  const stringToSign = [algorithm, amzDate, credentialScope,
    await sha256Hex(canonicalRequest)].join("\n");
  const kDate = await hmac("AWS4" + opts.secretAccessKey, datestamp);
  const kRegion = await hmac(kDate, region);
  const kService = await hmac(kRegion, "s3");
  const kSigning = await hmac(kService, "aws4_request");
  const signature = u8ToHex(await hmac(kSigning, stringToSign));
  return `https://${host}${canonicalUri}?${qp.toString()}&X-Amz-Signature=${signature}`;\<close>
\<close>

text \<open>The fields \<^verbatim>\<open>bucket\<close> and \<^verbatim>\<open>key\<close> are \<open>bucketName\<close> and \<open>objectKey\<close> here.\<close>

record presign_opts =
  accountId :: string
  bucketName :: string
  objectKey :: string
  accessKeyId :: string
  secretAccessKey :: string
  region :: "string option"
  expiresSec :: "int option"

definition presignPutUrl :: "platform \<Rightarrow> presign_opts \<Rightarrow> string" where
  "presignPutUrl P opts =
     (let region' = (case region opts of None \<Rightarrow> ''auto'' | Some r \<Rightarrow> r);
          host = accountId opts @ ''.r2.cloudflarestorage.com'';
          canonicalUri = ''/'' @ bucketName opts @ ''/'' @ encodeURIComponent (objectKey opts);
          method = ''PUT'';
          amzDate = take 15 (strip_separators (toISOString P (now P))) @ ''Z'';
          datestamp = take 8 amzDate;
          algorithm = ''AWS4-HMAC-SHA256'';
          credentialScope = datestamp @ ''/'' @ region' @ ''/s3/aws4_request'';
          qp = URLSearchParams_toString
            [(''X-Amz-Algorithm'', algorithm),
             (''X-Amz-Credential'', accessKeyId opts @ ''/'' @ credentialScope),
             (''X-Amz-Date'', amzDate),
             (''X-Amz-Expires'', String_int (case expiresSec opts of None \<Rightarrow> 600 | Some x \<Rightarrow> x)),
             (''X-Amz-SignedHeaders'', ''host'')];
          canonicalHeaders = ''host:'' @ host @ [CHR 0x0A];
          signedHeaders = ''host'';
          payloadHash = ''UNSIGNED-PAYLOAD'';
          canonicalRequest = join [CHR 0x0A]
            [method, canonicalUri, qp, canonicalHeaders, signedHeaders, payloadHash];
          stringToSign = join [CHR 0x0A]
            [algorithm, amzDate, credentialScope, sha256Hex P canonicalRequest];
          kDate = hmac P (KeyString (''AWS4'' @ secretAccessKey opts)) datestamp;
          kRegion = hmac P (KeyBuffer kDate) region';
          kService = hmac P (KeyBuffer kRegion) ''s3'';
          kSigning = hmac P (KeyBuffer kService) ''aws4_request'';
          signature = u8ToHex (hmac P (KeyBuffer kSigning) stringToSign)
      in ''https://'' @ host @ canonicalUri @ ''?'' @ qp @ ''&X-Amz-Signature='' @ signature)"

section \<open>Uploads\<close>

text \<open>
  The entries of the upload form (\<^verbatim>\<open>form.getAll("files")\<close>): files or plain strings. The
  size of a file is the length of its content.
\<close>

record form_file =
  file_name :: string
  file_type :: string
  file_bytes :: bytes

datatype form_entry = FileEntry form_file | FieldEntry string

text \<open>
  \<^verbatim>\<open>
  let batchBytes = 0;
  for (const entry of files) {
    if (!(entry instanceof File))
      return new Response("Malformed form data.", { status: 400 });
    if (!isAllowed(entry.type || "", entry.name || ""))
      return new Response(`Unsupported type: ${entry.type || "unknown"} (${entry.name})`,
        { status: 415 });
    batchBytes += entry.size;
  }\<close>
\<close>

fun check_entries :: "form_entry list \<Rightarrow> int \<Rightarrow> response + int" where
  "check_entries [] batchBytes = Inr batchBytes"
| "check_entries (FieldEntry s # entries) batchBytes = Inl (400, Text ''Malformed form data.'')"
| "check_entries (FileEntry f # entries) batchBytes =
     (if \<not> isAllowed1 (file_type f) (file_name f)
      then Inl (415, Text (''Unsupported type: '' @
             (if file_type f \<noteq> [] then file_type f else ''unknown'') @
             '' ('' @ file_name f @ '')''))
      else check_entries entries (batchBytes + int (length (file_bytes f))))"

text \<open>
  \<^verbatim>\<open>
  for (const entry of files as File[]) {
    const key = crypto.randomUUID() + "/" + (entry.name || "file");
    const customMetadata = { pinned: String(pin), last_accessed: nowISO() };
    await env.FILES.put(key, await entry.arrayBuffer(), {
      httpMetadata: {
        contentType: entry.type,
        contentDisposition: `inline; filename="${entry.name}"`,
      },
      customMetadata,
    });
    results.push({ key, name: entry.name, size: entry.size, type: entry.type, pinned: pin });
    await bumpUsedBytes(env, entry.size);
  }\<close>
  The loop is reached with files only; on a plain string \<^verbatim>\<open>entry.arrayBuffer\<close> is not a
  function and the call throws.
\<close>

fun store_entries ::
  "platform \<Rightarrow> bool \<Rightarrow> nat \<Rightarrow> form_entry list \<Rightarrow> upload_result list \<times> env \<Rightarrow>
   upload_result list outcome \<times> env"
where
  "store_entries P pin i [] (results, e) = (Returns results, e)"
| "store_entries P pin i (FieldEntry s # entries) (results, e) = (Throws, e)"
| "store_entries P pin i (FileEntry f # entries) (results, e) =
     (let k = randomUUID P i @ ''/'' @ (if file_name f \<noteq> [] then file_name f else ''file'') in
      case r2_put P e k (file_bytes f)
             \<lparr>contentType = file_type f,
              contentDisposition = ''inline; filename='' @ [CHR 0x22] @ file_name f @ [CHR 0x22]\<rparr>
             [''pinned'' \<mapsto> String_bool pin, ''last_accessed'' \<mapsto> nowISO P] of
        Throws \<Rightarrow> (Throws, e)
      | Returns e1 \<Rightarrow>
          (case bumpUsedBytes1 P e1 (int (length (file_bytes f))) of
             Throws \<Rightarrow> (Throws, e1)
           | Returns e2 \<Rightarrow>
               store_entries P pin (Suc i) entries
                 (results @ [\<lparr>res_key = k, res_name = file_name f,
                               res_size = int (length (file_bytes f)),
                               res_type = file_type f, res_pinned = pin\<rparr>], e2)))"

text \<open>
  \<^verbatim>\<open>
  if (files.length === 0) return new Response("No files.", { status: 400 });
  if (files.length > MAX_FILES_PER_BATCH)
    return new Response(`Max ${MAX_FILES_PER_BATCH} files per upload.`, { status: 413 });
  ... the checking loop ...
  const used = await getUsedBytes(env);
  if (used + batchBytes >= BYTES_LIMIT) {
    return json({ ok: false, reason: "quota", message: ..., usedBytes: used,
      limitBytes: BYTES_LIMIT }, 413);
  }
  ... the storing loop ...
  return json({ ok: true, files: results }, 200);\<close>
\<close>

definition handleUpload ::
  "platform \<Rightarrow> env \<Rightarrow> form_entry list \<Rightarrow> bool \<Rightarrow> response outcome \<times> env"
where
  "handleUpload P e files pin =
     (if files = [] then (Returns (400, Text ''No files.''), e)
      else if MAX_FILES_PER_BATCH < length files
        then (Returns (413, Text ''Max 20 files per upload.''), e)
      else
        (case check_entries files 0 of
           Inl resp \<Rightarrow> (Returns resp, e)
         | Inr batchBytes \<Rightarrow>
             (case getUsedBytes1 P e of
                (Throws, e1) \<Rightarrow> (Throws, e1)
              | (Returns used, e1) \<Rightarrow>
                  if BYTES_LIMIT \<le> used + batchBytes
                  then (Returns (413, QuotaError used BYTES_LIMIT), e1)
                  else
                    (case store_entries P pin 0 files ([], e1) of
                       (Throws, e2) \<Rightarrow> (Throws, e2)
                     | (Returns results, e2) \<Rightarrow> (Returns (200, Uploaded results), e2)))))"

text \<open>
  The files a client declares to the presigning worker. The size is the integer literal of
  the JSON text, of any magnitude and sign: the worker does not validate it.
  \<^verbatim>\<open>request.json()\<close> rounds it to a double. Sizes that are no integers are outside the
  model.
\<close>

record file_decl =
  fname :: string
  fsize :: int
  ftype :: "string option"

text \<open>
  \<^verbatim>\<open>
  let total = 0;
  for (const f of files) {
    if (!isAllowed(f.type, f.name)) {
      return json({ ok: false, message: `Unsupported type for ${f.name}` }, 415);
    }
    total += Number(f.size || 0);
  }\<close>
\<close>

fun check_files :: "file_decl list \<Rightarrow> number \<Rightarrow> response + number" where
  "check_files [] tot = Inr tot"
| "check_files (f # fs) tot =
     (if \<not> isAllowed2 (ftype f) (Some (fname f))
      then Inl (415, Failure (''Unsupported type for '' @ fname f))
      else check_files fs (plus_number tot (Number_or_zero (round_double (fsize f)))))"

text \<open>
  \<^verbatim>\<open>
  for (const f of files) {
    const key = crypto.randomUUID() + "/" + f.name;
    const url = await presignPutUrl({ accountId, bucket, key, accessKeyId, secretAccessKey,
      expiresSec: 600 });
    uploads.push({ key, url, name: f.name, size: f.size, type: f.type });
  }\<close>
\<close>

fun presign_files ::
  "platform \<Rightarrow> string \<Rightarrow> string \<Rightarrow> string \<Rightarrow> string \<Rightarrow> nat \<Rightarrow> file_decl list \<Rightarrow> upload_slot list"
where
  "presign_files P account bkt akid secret i [] = []"
| "presign_files P account bkt akid secret i (f # fs) =
     (let k = randomUUID P i @ ''/'' @ fname f;
          url = presignPutUrl P
            \<lparr>accountId = account, bucketName = bkt, objectKey = k, accessKeyId = akid,
             secretAccessKey = secret, region = None, expiresSec = Some 600\<rparr>
      in \<lparr>slot_key = k, slot_url = url, slot_name = fname f,
          slot_size = round_double (fsize f), slot_type = ftype f\<rparr> # presign_files P account bkt akid secret (Suc i) fs)"

text \<open>
  \<^verbatim>\<open>
  if (!Array.isArray(files) || files.length === 0)
    return json({ ok: false, message: "No files." }, 400);
  if (files.length > MAX_FILES_PER_BATCH)
    return json({ ok: false, message: `Max ${MAX_FILES_PER_BATCH} files per upload.` }, 413);
  ... the checking loop ...
  const used = await getUsedBytes(env);
  if (used + total >= BYTES_LIMIT) {
    return json({ ok: false, reason: "quota", message: ..., usedBytes: used,
      limitBytes: BYTES_LIMIT }, 413);
  }
  const accessKeyId = env.R2_ACCESS_KEY_ID as string;
  const secretAccessKey = env.R2_SECRET_ACCESS_KEY as string;
  const accountId = env.R2_ACCOUNT_ID as string;
  const bucket = (env.R2_BUCKET as string) || "felicity-files";
  if (!accessKeyId || !secretAccessKey || !accountId) {
    return json({ ok: false, message: "R2 credentials not configured." }, 500);
  }
  ... the presigning loop ...
  await env.FILES_KV.put("pending:" + uploads.map((u) => u.key).join(","),
    JSON.stringify({ pin, files: uploads.map((u) => ({ key: u.key, size: u.size })) }),
    { expirationTtl: 3600 }).catch(() => {});
  return json({ ok: true, uploads, pin: Boolean(pin) });\<close>
  The value of \<^verbatim>\<open>getUsedBytes\<close> is a double too: \<open>round_double\<close> leaves it as it is.
\<close>

definition put_pending :: "platform \<Rightarrow> env \<Rightarrow> upload_slot list \<Rightarrow> bool \<Rightarrow> env" where
  "put_pending P e uploads pin =
     (let name = ''pending:'' @ join '','' (map slot_key uploads) in
      if fails P (KV_put name) then e
      else e\<lparr>FILES_KV := (FILES_KV e)\<lparr>pending := (pending (FILES_KV e))
             (name \<mapsto> (pin, map (\<lambda>u. (slot_key u, slot_size u)) uploads))\<rparr>\<rparr>)"

definition fetch_upload_urls ::
  "platform \<Rightarrow> env \<Rightarrow> file_decl list \<Rightarrow> bool \<Rightarrow> response outcome \<times> env"
where
  "fetch_upload_urls P e files pin =
     (if files = [] then (Returns (400, Failure ''No files.''), e)
      else if MAX_FILES_PER_BATCH < length files
        then (Returns (413, Failure ''Max 20 files per upload.''), e)
      else
        (case check_files files (Num 0) of
           Inl resp \<Rightarrow> (Returns resp, e)
         | Inr tot \<Rightarrow>
             (case getUsedBytes2 P e of
                (used, e1) \<Rightarrow>
                  if at_least (plus_number (round_double used) tot) BYTES_LIMIT
                  then (Returns (413, QuotaError used BYTES_LIMIT), e1)
                  else
                    (let akid = or_empty (R2_ACCESS_KEY_ID e1);
                         secret = or_empty (R2_SECRET_ACCESS_KEY e1);
                         account = or_empty (R2_ACCOUNT_ID e1);
                         bkt = (if or_empty (R2_BUCKET e1) \<noteq> [] then or_empty (R2_BUCKET e1)
                                else ''felicity-files'')
                     in if akid = [] \<or> secret = [] \<or> account = []
                        then (Returns (500, Failure ''R2 credentials not configured.''), e1)
                        else
                          (let uploads = presign_files P account bkt akid secret 0 files
                           in (Returns (200, UploadUrls uploads pin),
                               put_pending P e1 uploads pin))))))"

section \<open>The routers\<close>

text \<open>
  What a handler reads of a request: its method, the path of its URL, the search parameter
  \<^verbatim>\<open>token\<close> and its body. A body is a form, with its entries named \<^verbatim>\<open>files\<close> and its
  field \<^verbatim>\<open>pin\<close>; or a JSON object, with its members \<^verbatim>\<open>files\<close>, \<^verbatim>\<open>keys\<close> (an absent list
  is the empty one), \<^verbatim>\<open>pin\<close> (false when absent) and \<^verbatim>\<open>pinned\<close>; or anything else.
  \<^verbatim>\<open>request.formData()\<close> throws on a body that is no form, \<^verbatim>\<open>request.json()\<close> on one
  that is no JSON.
\<close>

datatype request_body =
  FormData "form_entry list" "string option"
| JsonBody "file_decl list" "string list" bool "bool option"
| OtherBody

record request =
  http_method :: string
  pathname :: string
  search_token :: "string option"
  req_body :: request_body

text \<open>
  A request is answered by the static assets (\<^verbatim>\<open>env.ASSETS.fetch(request)\<close>), by the chat
  handler, which uses the binding \<^verbatim>\<open>AI\<close> alone, or by one of the handlers above. The first
  two leave \<^verbatim>\<open>FILES\<close> and \<^verbatim>\<open>FILES_KV\<close> alone; what they answer is not modelled.
\<close>

datatype answer = Served_by_ASSETS | Served_by_AI | Worker "response outcome"

definition answered :: "response outcome \<times> env \<Rightarrow> answer \<times> env" where
  "answered x = (Worker (fst x), snd x)"

text \<open>
  \<^verbatim>\<open>s.endsWith(t)\<close>; the last element of \<^verbatim>\<open>rest.split("/")\<close>; \<^verbatim>\<open>s.slice(0, i)\<close>, where
  a negative \<open>i\<close> counts from the end.
\<close>

definition endsWith :: "string \<Rightarrow> string \<Rightarrow> bool" where
  "endsWith s t = prefix (rev t) (rev s)"

definition last_segment :: "string \<Rightarrow> string" where
  "last_segment rest = rev (takeWhile (\<lambda>c. c \<noteq> CHR ''/'') (rev rest))"

definition slice_to :: "string \<Rightarrow> int \<Rightarrow> string" where
  "slice_to s i = (if i < 0 then take (nat (int (length s) + i)) s else take (nat i) s)"

subsection \<open>Touching and pinning\<close>

text \<open>
  The server-mediated worker:
  \<^verbatim>\<open>
  const head = await env.FILES.head(key);
  if (!head) return new Response("Not found", { status: 404 });
  const meta = { ...(head.customMetadata || {}), last_accessed: nowISO() };
  const obj = await env.FILES.get(key);
  if (!obj) return new Response("Not found", { status: 404 });
  await env.FILES.put(key, obj.body!, { httpMetadata: head.httpMetadata, customMetadata: meta });
  return json({ ok: true, key, last_accessed: meta.last_accessed });\<close>
\<close>

definition handleTouchAccess :: "platform \<Rightarrow> env \<Rightarrow> string \<Rightarrow> response outcome \<times> env" where
  "handleTouchAccess P e key =
     (case r2_head P e key of
        Throws \<Rightarrow> (Throws, e)
      | Returns None \<Rightarrow> (Returns (404, Text ''Not found''), e)
      | Returns (Some head) \<Rightarrow>
          (case r2_get P e key of
             Throws \<Rightarrow> (Throws, e)
           | Returns None \<Rightarrow> (Returns (404, Text ''Not found''), e)
           | Returns (Some obj) \<Rightarrow>
               (case r2_put P e key (body obj) (httpMetadata head)
                       ((customMetadata head)(''last_accessed'' \<mapsto> nowISO P)) of
                  Throws \<Rightarrow> (Throws, e)
                | Returns e' \<Rightarrow> (Returns (200, Touched key (Some (nowISO P))), e'))))"

text \<open>
  \<^verbatim>\<open>
  const body = (await _request.json()) as { pinned: boolean };
  const head = await env.FILES.head(key);
  if (!head) return new Response("Not found", { status: 404 });
  const meta = { ...(head.customMetadata || {}), pinned: String(Boolean(body.pinned)) };
  const obj = await env.FILES.get(key);
  await env.FILES.put(key, obj!.body!, { httpMetadata: head.httpMetadata, customMetadata: meta });
  return json({ ok: true, key, pinned: body.pinned });\<close>
  When the object has gone between the two look-ups, \<^verbatim>\<open>obj!.body\<close> throws.
\<close>

definition handlePin ::
  "platform \<Rightarrow> env \<Rightarrow> request_body \<Rightarrow> string \<Rightarrow> response outcome \<times> env"
where
  "handlePin P e b key =
     (case b of
        JsonBody files keys pin pinned \<Rightarrow>
          (case r2_head P e key of
             Throws \<Rightarrow> (Throws, e)
           | Returns None \<Rightarrow> (Returns (404, Text ''Not found''), e)
           | Returns (Some head) \<Rightarrow>
               (case r2_get P e key of
                  Throws \<Rightarrow> (Throws, e)
                | Returns None \<Rightarrow> (Throws, e)
                | Returns (Some obj) \<Rightarrow>
                    (case r2_put P e key (body obj) (httpMetadata head)
                            ((customMetadata head)(''pinned'' \<mapsto> String_bool (pinned = Some True))) of
                       Throws \<Rightarrow> (Throws, e)
                     | Returns e' \<Rightarrow> (Returns (200, Pinned key pinned), e'))))
      | _ \<Rightarrow> (Throws, e))"

text \<open>
  The presigning worker, on the decoded rest of the path:
  \<^verbatim>\<open>
  if (!rest.endsWith("/access")) return new Response("Not found", { status: 404 });
  const key = rest.replace(/\/access$/, "");
  const head = await env.FILES.head(key);
  if (!head) return new Response("Not found", { status: 404 });
  const obj = await env.FILES.get(key);
  if (!obj) return new Response("Not found", { status: 404 });
  await env.FILES.put(key, obj.body!, { httpMetadata: head.httpMetadata,
    customMetadata: { ...(head.customMetadata || {}), last_accessed: nowISO() } });
  return json({ ok: true, key });\<close>
\<close>

definition fetch_touch :: "platform \<Rightarrow> env \<Rightarrow> string \<Rightarrow> response outcome \<times> env" where
  "fetch_touch P e rest =
     (if \<not> endsWith rest ''/access'' then (Returns (404, Text ''Not found''), e)
      else
        (let key = take (length rest - 7) rest in
         case r2_head P e key of
           Throws \<Rightarrow> (Throws, e)
         | Returns None \<Rightarrow> (Returns (404, Text ''Not found''), e)
         | Returns (Some head) \<Rightarrow>
             (case r2_get P e key of
                Throws \<Rightarrow> (Throws, e)
              | Returns None \<Rightarrow> (Returns (404, Text ''Not found''), e)
              | Returns (Some obj) \<Rightarrow>
                  (case r2_put P e key (body obj) (httpMetadata head)
                          ((customMetadata head)(''last_accessed'' \<mapsto> nowISO P)) of
                     Throws \<Rightarrow> (Throws, e)
                   | Returns e' \<Rightarrow> (Returns (200, Touched key None), e')))))"

subsection \<open>The router of the server-mediated worker\<close>

text \<open>
  \<^verbatim>\<open>
  if (pathname === "/" || !pathname.startsWith("/api/")) {
    return env.ASSETS.fetch(request);
  }
  if (pathname === "/api/chat") {
    if (request.method === "POST") return handleChatRequest(request, env);
    return new Response("Method not allowed", { status: 405 });
  }
  if (pathname === "/api/quota" && request.method === "GET") {
    return handleQuota(request, env);
  }
  if (pathname === "/api/upload" && request.method === "POST") {
    return handleUpload(request, env);
  }
  if (pathname.startsWith("/api/files/")) {
    const rest = decodeURIComponent(pathname.slice("/api/files/".length));
    const parts = rest.split("/");
    const sub = parts[parts.length - 1];
    const key = sub === "access" || sub === "pin"
      ? rest.slice(0, rest.lastIndexOf("/")) : rest;
    if (sub === "access" && request.method === "POST") {
      return handleTouchAccess(request, env, key);
    }
    if (sub === "pin" && request.method === "POST") {
      return handlePin(request, env, key);
    }
    if (request.method === "DELETE") {
      return handleDelete(request, env, key);
    }
  }
  if (pathname === "/__scheduled" && request.method === "GET") {
    return handleCleanup(request, env, searchParams.get("token"));
  }
  return new Response("Not found", { status: 404 });\<close>
  \<^verbatim>\<open>handleUpload\<close> begins with \<^verbatim>\<open>const form = await request.formData()\<close>,
  \<^verbatim>\<open>form.getAll("files")\<close> and \<^verbatim>\<open>form.get("pin") === "true"\<close>.
\<close>

definition last_tests1 :: "platform \<Rightarrow> env \<Rightarrow> request \<Rightarrow> answer \<times> env" where
  "last_tests1 P e req =
     (if pathname req = ''/__scheduled'' \<and> http_method req = ''GET''
      then answered (handleCleanup P e (search_token req))
      else (Worker (Returns (404, Text ''Not found'')), e))"

definition fetch1 :: "platform \<Rightarrow> env \<Rightarrow> request \<Rightarrow> answer \<times> env" where
  "fetch1 P e req =
     (if pathname req = ''/'' \<or> \<not> prefix ''/api/'' (pathname req) then (Served_by_ASSETS, e)
      else if pathname req = ''/api/chat'' then
        (if http_method req = ''POST'' then (Served_by_AI, e)
         else (Worker (Returns (405, Text ''Method not allowed'')), e))
      else if pathname req = ''/api/quota'' \<and> http_method req = ''GET''
        then answered (handleQuota P e)
      else if pathname req = ''/api/upload'' \<and> http_method req = ''POST'' then
        (case req_body req of
           FormData files pin \<Rightarrow> answered (handleUpload P e files (pin = Some ''true''))
         | _ \<Rightarrow> (Worker Throws, e))
      else if prefix ''/api/files/'' (pathname req) then
        (case decodeURIComponent P (drop (length ''/api/files/'') (pathname req)) of
           None \<Rightarrow> (Worker Throws, e)
         | Some rest \<Rightarrow>
             (let sub = last_segment rest;
                  key = (if sub = ''access'' \<or> sub = ''pin''
                         then slice_to rest (lastIndexOf rest (CHR ''/'')) else rest)
              in if sub = ''access'' \<and> http_method req = ''POST''
                   then answered (handleTouchAccess P e key)
                 else if sub = ''pin'' \<and> http_method req = ''POST''
                   then answered (handlePin P e (req_body req) key)
                 else if http_method req = ''DELETE''
                   then answered (handleDelete P e key)
                 else last_tests1 P e req))
      else last_tests1 P e req)"

subsection \<open>The router of the presigning worker\<close>

text \<open>
  \<^verbatim>\<open>
  if (pathname === "/" || !pathname.startsWith("/api/")) {
    return (env as BaseEnv).ASSETS.fetch(request);
  }
  if (pathname === "/api/chat" && request.method === "POST") {
    return handleChatRequest(request, env);
  }
  if (pathname === "/api/quota" && request.method === "GET") { ... }
  if (pathname === "/api/upload-urls" && request.method === "POST") {
    const { files = [], pin = false } = (await request.json()) as ...;
    ...
  }
  if (pathname === "/api/confirm" && request.method === "POST") {
    const { keys = [], pin = false } = (await request.json()) as ...;
    ...
  }
  if (pathname.startsWith("/api/files/") && request.method === "DELETE") {
    const key = decodeURIComponent(pathname.slice("/api/files/".length));
    ...
  }
  if (pathname.startsWith("/api/files/") && request.method === "POST") {
    const rest = decodeURIComponent(pathname.slice("/api/files/".length));
    ...
  }
  if (pathname === "/__scheduled" && request.method === "GET") { ... }
  return new Response("Not found", { status: 404 });\<close>
\<close>

definition fetch2 :: "platform \<Rightarrow> env \<Rightarrow> request \<Rightarrow> answer \<times> env" where
  "fetch2 P e req =
     (if pathname req = ''/'' \<or> \<not> prefix ''/api/'' (pathname req) then (Served_by_ASSETS, e)
      else if pathname req = ''/api/chat'' \<and> http_method req = ''POST'' then (Served_by_AI, e)
      else if pathname req = ''/api/quota'' \<and> http_method req = ''GET''
        then answered (fetch_quota P e)
      else if pathname req = ''/api/upload-urls'' \<and> http_method req = ''POST'' then
        (case req_body req of
           JsonBody files keys pin pinned \<Rightarrow> answered (fetch_upload_urls P e files pin)
         | _ \<Rightarrow> (Worker Throws, e))
      else if pathname req = ''/api/confirm'' \<and> http_method req = ''POST'' then
        (case req_body req of
           JsonBody files keys pin pinned \<Rightarrow> answered (fetch_confirm P e keys pin)
         | _ \<Rightarrow> (Worker Throws, e))
      else if prefix ''/api/files/'' (pathname req) \<and> http_method req = ''DELETE'' then
        (case decodeURIComponent P (drop (length ''/api/files/'') (pathname req)) of
           None \<Rightarrow> (Worker Throws, e)
         | Some key \<Rightarrow> answered (fetch_delete P e key))
      else if prefix ''/api/files/'' (pathname req) \<and> http_method req = ''POST'' then
        (case decodeURIComponent P (drop (length ''/api/files/'') (pathname req)) of
           None \<Rightarrow> (Worker Throws, e)
         | Some rest \<Rightarrow> answered (fetch_touch P e rest))
      else if pathname req = ''/__scheduled'' \<and> http_method req = ''GET''
        then answered (scheduled_branch P e (search_token req))
      else (Worker (Returns (404, Text ''Not found'')), e))"

section \<open>Adjustments that overlap\<close>

text \<open>
  A request runs until its next \<^verbatim>\<open>await\<close>; between two awaited calls other requests
  run. \<^verbatim>\<open>bumpUsedBytes\<close> of the presigning worker awaits twice, the read of the cell and
  then its write, so an adjustment is a task of two steps: it starts with its delta, holds
  the value it has read, and is finished once it has written. A schedule names the task
  that takes the next step.
\<close>

datatype bump_task = Start int | Holding int int | Finished

fun bump_step :: "int option \<Rightarrow> bump_task \<Rightarrow> int option \<times> bump_task" where
  "bump_step c (Start delta) = (c, Holding delta (Number_or_0 c))"
| "bump_step c (Holding delta cur) = (Some (cur + delta), Finished)"
| "bump_step c Finished = (c, Finished)"

definition schedule_step ::
  "nat \<Rightarrow> int option \<times> bump_task list \<Rightarrow> int option \<times> bump_task list"
where
  "schedule_step i s =
     (case s of (c, tasks) \<Rightarrow>
        if i < length tasks
        then (case bump_step c (tasks ! i) of (c', t') \<Rightarrow> (c', tasks[i := t']))
        else (c, tasks))"

definition run_schedule ::
  "nat list \<Rightarrow> int option \<times> bump_task list \<Rightarrow> int option \<times> bump_task list"
where
  "run_schedule sched s = fold schedule_step sched s"

text \<open>
  Adjustments applied one after another, each completed before the next begins: as calls
  of \<^verbatim>\<open>bumpUsedBytes\<close>, and as the schedule in which every task takes its two steps in
  a row, the tasks in a given order.
\<close>

definition in_sequence :: "nat list \<Rightarrow> nat list" where
  "in_sequence order = concat (map (\<lambda>i. [i, i]) order)"

fun bump_each2 :: "platform \<Rightarrow> env \<Rightarrow> int list \<Rightarrow> env outcome" where
  "bump_each2 P e [] = Returns e"
| "bump_each2 P e (delta # deltas) =
     (case bumpUsedBytes2 P e delta of
        Throws \<Rightarrow> Throws
      | Returns e' \<Rightarrow> bump_each2 P e' deltas)"

section \<open>Quantities the properties speak of\<close>

text \<open>The value of the counter, as an adjustment reads it.\<close>

definition counter :: "env \<Rightarrow> int" where
  "counter e = Number_or_0 (used_bytes (FILES_KV e))"

text \<open>The bytes that are really stored.\<close>

definition stored_bytes :: "r2bucket \<Rightarrow> int" where
  "stored_bytes b = sum_list (map (\<lambda>(k, obj). size_of obj) b)"

text \<open>The bytes found under a list of keys, each look-up counted.\<close>

definition found_bytes :: "r2bucket \<Rightarrow> string list \<Rightarrow> int" where
  "found_bytes b keys =
     sum_list (map (\<lambda>k. case map_of b k of None \<Rightarrow> 0 | Some obj \<Rightarrow> size_of obj) keys)"

definition found_count :: "r2bucket \<Rightarrow> string list \<Rightarrow> nat" where
  "found_count b keys = length (filter (\<lambda>k. map_of b k \<noteq> None) keys)"

text \<open>No call of a binding throws.\<close>

definition no_faults :: "platform \<Rightarrow> bool" where
  "no_faults P = (\<forall>op. \<not> fails P op)"

text \<open>The keys of a bucket ascend strictly, as the keys of a listing do.\<close>

definition ascending :: "r2bucket \<Rightarrow> bool" where
  "ascending b = sorted_wrt (<) (map fst b)"

text \<open>The metadata a confirmation writes.\<close>

definition confirmed_object :: "platform \<Rightarrow> bool \<Rightarrow> r2object \<Rightarrow> r2object" where
  "confirmed_object P pin obj =
     \<lparr>body = body obj, uploaded = now P, httpMetadata = httpMetadata obj,
      customMetadata = (customMetadata obj)
        (''pinned'' \<mapsto> String_bool pin, ''last_accessed'' \<mapsto> nowISO P)\<rparr>"

text \<open>The objects a pass deletes, and those it keeps.\<close>

definition doomed :: "platform \<Rightarrow> int \<Rightarrow> r2bucket \<Rightarrow> r2bucket" where
  "doomed P cutoff b = filter (\<lambda>(k, obj). eligible P cutoff obj) b"

definition survivors :: "platform \<Rightarrow> int \<Rightarrow> r2bucket \<Rightarrow> r2bucket" where
  "survivors P cutoff b = filter (\<lambda>(k, obj). \<not> eligible P cutoff obj) b"

text \<open>The rule of the claim: an object without \<^verbatim>\<open>last_accessed\<close> is always eligible.\<close>

definition claimed_eligible :: "platform \<Rightarrow> int \<Rightarrow> r2object \<Rightarrow> bool" where
  "claimed_eligible P cutoff obj =
     (customMetadata obj ''pinned'' \<noteq> Some ''true'' \<and>
      (case customMetadata obj ''last_accessed'' of
         None \<Rightarrow> True
       | Some s \<Rightarrow> (case Date_parse P s of None \<Rightarrow> True | Some t \<Rightarrow> t < cutoff)))"

text \<open>
  The time stamp the sweep judges an object by: its \<^verbatim>\<open>last_accessed\<close> when present and
  not empty, otherwise the text of its upload date.
\<close>

definition stamp :: "platform \<Rightarrow> r2object \<Rightarrow> string" where
  "stamp P obj =
     (case customMetadata obj ''last_accessed'' of
        None \<Rightarrow> Date_toString P (uploaded obj)
      | Some s \<Rightarrow> if s \<noteq> [] then s else Date_toString P (uploaded obj))"

text \<open>The bytes a batch declares, and the batches that pass the validation.\<close>

definition declared_bytes :: "file_decl list \<Rightarrow> int" where
  "declared_bytes files = sum_list (map fsize files)"

text \<open>
  The bytes a batch declares as the presigning worker adds them up, and its test of the
  quota on the bytes in use and that total.
\<close>

definition declared_total :: "file_decl list \<Rightarrow> number" where
  "declared_total files =
     fold (\<lambda>f t. plus_number t (Number_or_zero (round_double (fsize f)))) files (Num 0)"

definition reaches_limit :: "int \<Rightarrow> number \<Rightarrow> bool" where
  "reaches_limit used tot = at_least (plus_number (round_double used) tot) BYTES_LIMIT"

definition batch_bytes :: "form_entry list \<Rightarrow> int" where
  "batch_bytes entries =
     sum_list (map (\<lambda>en. case en of FileEntry f \<Rightarrow> int (length (file_bytes f))
                                    | FieldEntry s \<Rightarrow> 0) entries)"

definition admissible2 :: "file_decl list \<Rightarrow> bool" where
  "admissible2 files =
     (files \<noteq> [] \<and> length files \<le> MAX_FILES_PER_BATCH \<and>
      list_all (\<lambda>f. isAllowed2 (ftype f) (Some (fname f))) files)"

definition admissible1 :: "form_entry list \<Rightarrow> bool" where
  "admissible1 entries =
     (entries \<noteq> [] \<and> length entries \<le> MAX_FILES_PER_BATCH \<and>
      list_all (\<lambda>en. case en of FileEntry f \<Rightarrow> isAllowed1 (file_type f) (file_name f)
                               | FieldEntry s \<Rightarrow> False) entries)"

text \<open>The answer is the quota error: status 413 with the reason \<^verbatim>\<open>quota\<close>.\<close>

definition quota_rejected :: "response outcome \<Rightarrow> bool" where
  "quota_rejected r =
     (case r of
        Throws \<Rightarrow> False
      | Returns (status, p) \<Rightarrow>
          (case p of QuotaError used lim \<Rightarrow> status = 413 \<and> lim = BYTES_LIMIT | _ \<Rightarrow> False))"

text \<open>
  Nothing happened to the bindings but, at most, the counter cell being set to the value
  just read.
\<close>

definition only_initialised :: "env \<Rightarrow> int \<Rightarrow> env \<Rightarrow> bool" where
  "only_initialised e used e' =
     (e' = e \<or> e' = e\<lparr>FILES_KV := (FILES_KV e)\<lparr>used_bytes := Some used\<rparr>\<rparr>)"

text \<open>
  The parts of a presigned URL: the issue time stamp, the credential scope, the URL up to
  the signature, and the bytes of the signature.
\<close>

definition amz_date :: "platform \<Rightarrow> string" where
  "amz_date P = take 15 (strip_separators (toISOString P (now P))) @ ''Z''"

definition region_of :: "presign_opts \<Rightarrow> string" where
  "region_of opts = (case region opts of None \<Rightarrow> ''auto'' | Some r \<Rightarrow> r)"

definition credential_scope :: "platform \<Rightarrow> presign_opts \<Rightarrow> string" where
  "credential_scope P opts = take 8 (amz_date P) @ ''/'' @ region_of opts @ ''/s3/aws4_request''"

definition query_string :: "platform \<Rightarrow> presign_opts \<Rightarrow> string" where
  "query_string P opts =
     ''X-Amz-Algorithm=AWS4-HMAC-SHA256'' @
     ''&X-Amz-Credential='' @ form_urlencode (accessKeyId opts @ ''/'' @ credential_scope P opts) @
     ''&X-Amz-Date='' @ form_urlencode (amz_date P) @
     ''&X-Amz-Expires='' @
        form_urlencode (String_int (case expiresSec opts of None \<Rightarrow> 600 | Some x \<Rightarrow> x)) @
     ''&X-Amz-SignedHeaders=host''"

definition unsigned_url :: "platform \<Rightarrow> presign_opts \<Rightarrow> string" where
  "unsigned_url P opts =
     ''https://'' @ accountId opts @ ''.r2.cloudflarestorage.com'' @
     ''/'' @ bucketName opts @ ''/'' @ encodeURIComponent (objectKey opts) @
     ''?'' @ query_string P opts @ ''&X-Amz-Signature=''"

definition string_to_sign :: "platform \<Rightarrow> presign_opts \<Rightarrow> string" where
  "string_to_sign P opts =
     join [CHR 0x0A]
       [''AWS4-HMAC-SHA256'', amz_date P, credential_scope P opts,
        sha256Hex P (join [CHR 0x0A]
          [''PUT'', ''/'' @ bucketName opts @ ''/'' @ encodeURIComponent (objectKey opts),
           query_string P opts,
           ''host:'' @ accountId opts @ ''.r2.cloudflarestorage.com'' @ [CHR 0x0A],
           ''host'', ''UNSIGNED-PAYLOAD''])]"

definition signature_bytes :: "platform \<Rightarrow> presign_opts \<Rightarrow> bytes" where
  "signature_bytes P opts =
     hmac P (KeyBuffer
       (hmac P (KeyBuffer
         (hmac P (KeyBuffer
           (hmac P (KeyBuffer
             (hmac P (KeyString (''AWS4'' @ secretAccessKey opts)) (take 8 (amz_date P))))
             (region_of opts)))
           ''s3''))
         ''aws4_request''))
       (string_to_sign P opts)"

text \<open>The options without the secret.\<close>

definition without_secret :: "presign_opts \<Rightarrow> presign_opts" where
  "without_secret opts = opts\<lparr>secretAccessKey := []\<rparr>"

section \<open>A concrete platform and concrete stores\<close>

text \<open>
  A platform on which no call throws and whose date functions and \<^verbatim>\<open>decodeURIComponent\<close>
  are tables of instances of the JavaScript functions (dates in UTC), at noon of
  2 November 2026. The store is the sweep
  scenario of the specification: A is pinned and was last read 30 days ago, B was last
  read 8 days ago, C has no \<^verbatim>\<open>last_accessed\<close> and was uploaded yesterday, D was read
  yesterday.
\<close>

definition table_platform :: platform where
  "table_platform =
     \<lparr>fails = (\<lambda>op. False),
      now = 1793620800000,
      list_limit = 2,
      Date_parse = map_of
        [(''2026-10-03T12:00:00.000Z'', 1791028800000),
         (''2026-10-25T12:00:00.000Z'', 1792929600000),
         (''2026-11-01T12:00:00.000Z'', 1793534400000),
         (''2026-11-02T12:00:00.000Z'', 1793620800000),
         (''Sun Nov 01 2026 12:00:00 GMT+0000 (Coordinated Universal Time)'', 1793534400000),
         (''Sun Oct 25 2026 12:00:00 GMT+0000 (Coordinated Universal Time)'', 1792929600000)],
      Date_toString = (\<lambda>t.
         if t = 1793534400000
         then ''Sun Nov 01 2026 12:00:00 GMT+0000 (Coordinated Universal Time)''
         else if t = 1792929600000
         then ''Sun Oct 25 2026 12:00:00 GMT+0000 (Coordinated Universal Time)''
         else []),
      toISOString = (\<lambda>t. if t = 1793620800000 then ''2026-11-02T12:00:00.000Z'' else []),
      decodeURIComponent = map_of
        [(''b/B.txt'', ''b/B.txt''),
         (''7d9f2c1e-0000-4000-8000-000000000000/pin'',
          ''7d9f2c1e-0000-4000-8000-000000000000/pin'')],
      randomUUID = (\<lambda>i. ''7d9f2c1e-0000-4000-8000-0000000000'' @
         [''0123456789'' ! (i div 10 mod 10), ''0123456789'' ! (i mod 10)]),
      hmac_sha256 = (\<lambda>k m. replicate 32 0),
      sha256 = (\<lambda>m. replicate 32 0)\<rparr>"

definition stored :: "bytes \<Rightarrow> int \<Rightarrow> (string \<times> string) list \<Rightarrow> r2object" where
  "stored payload t meta =
     \<lparr>body = payload, uploaded = t,
      httpMetadata = \<lparr>contentType = ''text/plain'', contentDisposition = ''inline''\<rparr>,
      customMetadata = map_of meta\<rparr>"

definition scenario_bucket :: r2bucket where
  "scenario_bucket =
     [(''a/A.txt'', stored [1, 2, 3] 1791028800000
         [(''pinned'', ''true''), (''last_accessed'', ''2026-10-03T12:00:00.000Z'')]),
      (''b/B.txt'', stored [1, 2, 3, 4, 5] 1792929600000
         [(''pinned'', ''false''), (''last_accessed'', ''2026-10-25T12:00:00.000Z'')]),
      (''c/C.txt'', stored [1, 2, 3, 4, 5, 6, 7] 1793534400000 [(''pinned'', ''false'')]),
      (''d/D.txt'', stored [1, 2] 1793534400000
         [(''pinned'', ''false''), (''last_accessed'', ''2026-11-01T12:00:00.000Z'')])]"

definition scenario_env :: env where
  "scenario_env =
     \<lparr>FILES = scenario_bucket,
      FILES_KV = \<lparr>used_bytes = Some 17, pending = Map.empty\<rparr>,
      R2_ACCESS_KEY_ID = Some ''0123456789abcdef0123456789abcdef'',
      R2_SECRET_ACCESS_KEY = Some ''fedcba9876543210fedcba9876543210fedcba9876543210fedcba9876543210'',
      R2_ACCOUNT_ID = Some ''acct'',
      R2_BUCKET = None\<rparr>"

text \<open>The same store when B has been uploaded but is not yet counted.\<close>

definition unconfirmed_env :: env where
  "unconfirmed_env = scenario_env\<lparr>FILES_KV := \<lparr>used_bytes = Some 12, pending = Map.empty\<rparr>\<rparr>"

text \<open>The store of the scenario when the counter cell has not been written yet.\<close>

definition fresh_env :: env where
  "fresh_env = scenario_env\<lparr>FILES_KV := \<lparr>used_bytes = None, pending = Map.empty\<rparr>\<rparr>"

text \<open>The store of the scenario when the counter stands 3 bytes below the limit.\<close>

definition full_env :: env where
  "full_env = scenario_env\<lparr>FILES_KV := \<lparr>used_bytes = Some 10200547325, pending = Map.empty\<rparr>\<rparr>"

text \<open>
  The store of the scenario with one more object, uploaded through the server-mediated
  worker from a file named \<^verbatim>\<open>pin\<close>.
\<close>

definition pin_env :: env where
  "pin_env =
     scenario_env\<lparr>FILES :=
       (''7d9f2c1e-0000-4000-8000-000000000000/pin'', stored [1, 2, 3, 4] 1793534400000
           [(''pinned'', ''false''), (''last_accessed'', ''2026-11-01T12:00:00.000Z'')]) #
       scenario_bucket,
       FILES_KV := \<lparr>used_bytes = Some 21, pending = Map.empty\<rparr>\<rparr>"

text \<open>The requests \<^verbatim>\<open>DELETE /api/files/...\<close> and \<^verbatim>\<open>GET /__scheduled?token=cron\<close>.\<close>

definition delete_request :: "string \<Rightarrow> request" where
  "delete_request path =
     \<lparr>http_method = ''DELETE'', pathname = ''/api/files/'' @ path, search_token = None,
      req_body = OtherBody\<rparr>"

definition cron_request :: request where
  "cron_request =
     \<lparr>http_method = ''GET'', pathname = ''/__scheduled'', search_token = Some ''cron'',
      req_body = OtherBody\<rparr>"

text \<open>A platform on which one call throws: the rewrite of D.\<close>

definition flaky_put :: platform where
  "flaky_put = table_platform\<lparr>fails := (\<lambda>op. op = R2_put ''d/D.txt'')\<rparr>"

text \<open>A platform on which the read of the counter cell and the first listing throw.\<close>

definition outage :: platform where
  "outage = table_platform\<lparr>fails := (\<lambda>op. op = KV_get ''used_bytes'' \<or> op = R2_list None)\<rparr>"

text \<open>
  The batch of the three declared sizes \<open>2^53\<close>, 1 and \<open>-(2^53 - 2)\<close>: their exact sum is
  3.
\<close>

definition rounding_batch :: "file_decl list" where
  "rounding_batch =
     [\<lparr>fname = ''a.txt'', fsize = 9007199254740992, ftype = Some ''text/plain''\<rparr>,
      \<lparr>fname = ''b.txt'', fsize = 1, ftype = Some ''text/plain''\<rparr>,
      \<lparr>fname = ''c.txt'', fsize = - 9007199254740990, ftype = Some ''text/plain''\<rparr>]"

text \<open>The call the presigning route makes for a file whose name is the secret itself.\<close>

definition leaky_opts :: presign_opts where
  "leaky_opts =
     \<lparr>accountId = ''acct'', bucketName = ''felicity-files'',
      objectKey = ''7d9f2c1e-0000-4000-8000-000000000000/'' @
        ''fedcba9876543210fedcba9876543210fedcba9876543210fedcba9876543210'',
      accessKeyId = ''0123456789abcdef0123456789abcdef'',
      secretAccessKey = ''fedcba9876543210fedcba9876543210fedcba9876543210fedcba9876543210'',
      region = None, expiresSec = Some 600\<rparr>"

section \<open>Properties of the type validation\<close>

lemma lastIndexOf_absent: "c \<notin> set s \<Longrightarrow> lastIndexOf s c = -1"
  by (induction s) (auto simp: Let_def)

lemma lastIndexOf_present: "c \<in> set s \<Longrightarrow> 0 \<le> lastIndexOf s c"
  by (induction s) (auto simp: Let_def)

lemma lastIndexOf_slice:
  "c \<in> set s \<Longrightarrow> slice s (lastIndexOf s c) = c # rev (takeWhile (\<lambda>x. x \<noteq> c) (rev s))"
proof (induction s)
  case Nil
  then show ?case by simp
next
  case (Cons x xs)
  show ?case
  proof (cases "c \<in> set xs")
    case True
    then have "0 \<le> lastIndexOf xs c" by (rule lastIndexOf_present)
    moreover have "nat (lastIndexOf xs c + 1) = Suc (nat (lastIndexOf xs c))"
      using \<open>0 \<le> lastIndexOf xs c\<close> by simp
    ultimately show ?thesis
      using Cons.IH [OF True] True by (simp add: slice_def Let_def)
  next
    case False
    then have "x = c" using Cons.prems by simp
    moreover have "lastIndexOf xs c = -1" using False by (rule lastIndexOf_absent)
    moreover have "takeWhile (\<lambda>x. x \<noteq> c) (rev xs @ [c]) = rev xs"
      using False by (induction xs rule: rev_induct) auto
    ultimately show ?thesis by (simp add: slice_def Let_def del: takeWhile_append2)
  qed
qed

lemma ext_allowed_code:
  "ext_allowed name =
     (0 \<le> lastIndexOf name (CHR ''.'') \<and>
      toLowerCase (slice name (lastIndexOf name (CHR ''.''))) \<in> set ALLOWED_EXT)"
proof (cases "CHR ''.'' \<in> set name")
  case True
  then show ?thesis
    by (simp add: ext_allowed_def extension_def lastIndexOf_slice lastIndexOf_present)
next
  case False
  then show ?thesis
    by (simp add: ext_allowed_def extension_def lastIndexOf_absent)
qed

lemma empty_not_mime: "[] \<notin> set ALLOWED_MIME"
  by (simp add: ALLOWED_MIME_def)

lemma isAllowed1_eq: "isAllowed1 type filename = (type \<in> set ALLOWED_MIME \<or> ext_allowed filename)"
  using empty_not_mime by (auto simp: isAllowed1_def ext_allowed_code Let_def)

lemma isAllowed2_eq:
  "isAllowed2 type filename =
     spec_allowed (trim (or_empty type)) (or_empty filename)"
  using empty_not_mime
  by (auto simp: isAllowed2_def spec_allowed_def generic_type_def ext_allowed_code Let_def)

text \<open>
  C5 (as stated, refuted): the claim gives one rule for both workers, under which a file
  of generic type is accepted whatever its name. The server-mediated worker rejects such a
  file when its name has no allowed extension.
\<close>

theorem C5_generic_type_rejected_by_upload_worker:
  "spec_allowed ''application/octet-stream'' ''README'' \<and>
   \<not> isAllowed1 ''application/octet-stream'' ''README''"
  by (simp add: spec_allowed_def generic_type_def isAllowed1_def ALLOWED_MIME_def)

text \<open>
  C5 (amended): the presigning worker accepts a file exactly when its declared type,
  trimmed of surrounding white space, is in the MIME allow-list, or the extension of its
  name is in the extension allow-list, or the trimmed type is empty or
  \<^verbatim>\<open>application/octet-stream\<close>. The server-mediated worker accepts a file exactly when
  its declared type is in the MIME allow-list or the extension of its name is in the
  extension allow-list: a generic type alone is not accepted there.
\<close>

theorem C5_isAllowed_rules:
  "isAllowed2 type2 filename2 = spec_allowed (trim (or_empty type2)) (or_empty filename2) \<and>
   isAllowed1 type1 filename1 = (type1 \<in> set ALLOWED_MIME \<or> ext_allowed filename1)"
  by (simp only: isAllowed2_eq isAllowed1_eq)

section \<open>Properties of the handlers\<close>

lemma or_0_id [simp]: "or_0 x = x"
  by (simp add: or_0_def)

lemma map_of_deleted:
  "map_of (filter (\<lambda>(k', v). k' \<noteq> key) b) k = (if k = key then None else map_of b k)"
  by (induction b) auto

lemma no_faultsD: "no_faults P \<Longrightarrow> \<not> fails P op"
  by (simp add: no_faults_def)

lemma table_platform_no_faults: "no_faults table_platform"
  by (simp add: no_faults_def table_platform_def)

lemma scenario_ascending: "ascending (FILES scenario_env)"
  by (simp add: ascending_def scenario_env_def scenario_bucket_def)

subsection \<open>Routes\<close>

text \<open>
  Which handler answers which request. Every path outside \<^verbatim>\<open>/api/\<close> is handed to the
  static assets by the first test of both routers.
\<close>

lemma answered_pair [simp]: "answered (r, e) = (Worker r, e)"
  by (simp add: answered_def)

lemma outside_api:
  assumes "\<not> prefix ''/api/'' (pathname req)"
  shows "fetch1 P e req = (Served_by_ASSETS, e)" and "fetch2 P e req = (Served_by_ASSETS, e)"
  using assms by (simp_all add: fetch1_def fetch2_def)

lemma route_quota:
  assumes "pathname req = ''/api/quota''" and "http_method req = ''GET''"
  shows "fetch1 P e req = answered (handleQuota P e)" and "fetch2 P e req = answered (fetch_quota P e)"
  using assms by (simp_all add: fetch1_def fetch2_def)

lemma route_upload:
  assumes "pathname req = ''/api/upload''" and "http_method req = ''POST''"
    and "req_body req = FormData entries pin"
  shows "fetch1 P e req = answered (handleUpload P e entries (pin = Some ''true''))"
  using assms by (simp add: fetch1_def)

lemma route_upload_urls:
  assumes "pathname req = ''/api/upload-urls''" and "http_method req = ''POST''"
    and "req_body req = JsonBody files keys pin pinned"
  shows "fetch2 P e req = answered (fetch_upload_urls P e files pin)"
  using assms by (simp add: fetch2_def)

lemma route_confirm:
  assumes "pathname req = ''/api/confirm''" and "http_method req = ''POST''"
    and "req_body req = JsonBody files keys pin pinned"
  shows "fetch2 P e req = answered (fetch_confirm P e keys pin)"
  using assms by (simp add: fetch2_def)

lemma route_delete2:
  assumes "pathname req = ''/api/files/'' @ path" and "http_method req = ''DELETE''"
    and "decodeURIComponent P path = Some key"
  shows "fetch2 P e req = answered (fetch_delete P e key)"
  using assms by (simp add: fetch2_def)

lemma route_delete1:
  assumes "pathname req = ''/api/files/'' @ path" and "http_method req = ''DELETE''"
    and "decodeURIComponent P path = Some rest"
  shows "fetch1 P e req =
     answered (handleDelete P e
       (if last_segment rest = ''access'' \<or> last_segment rest = ''pin''
        then slice_to rest (lastIndexOf rest (CHR ''/'')) else rest))"
  using assms by (simp add: fetch1_def Let_def)

subsection \<open>Delete\<close>

lemma fetch_delete_effect:
  assumes "\<not> fails P (R2_head key)"
  shows "map_of (FILES e) key = None \<Longrightarrow>
           fetch_delete P e key = (Returns (404, Text ''Not found''), e)"
    and "map_of (FILES e) key = Some obj \<Longrightarrow> no_faults P \<Longrightarrow>
           fetch_delete P e key =
             (Returns (200, OkOnly),
              e\<lparr>FILES := filter (\<lambda>(k', v). k' \<noteq> key) (FILES e),
                FILES_KV := (FILES_KV e)\<lparr>used_bytes := Some (counter e - size_of obj)\<rparr>\<rparr>)"
  using assms
  by (auto simp: fetch_delete_def r2_head_def r2_delete_def
      bumpUsedBytes2_def kv_get_used_def kv_put_used_def counter_def
      dest: no_faultsD)

lemma handleDelete_effect:
  assumes "\<not> fails P (R2_head key)"
  shows "map_of (FILES e) key = None \<Longrightarrow>
           handleDelete P e key = (Returns (404, Text ''Not found''), e)"
    and "map_of (FILES e) key = Some obj \<Longrightarrow> \<not> fails P (R2_delete key) \<Longrightarrow>
           handleDelete P e key =
             (Throws, e\<lparr>FILES := filter (\<lambda>(k', v). k' \<noteq> key) (FILES e)\<rparr>)"
  using assms
  by (auto simp: handleDelete_def r2_head_def r2_delete_def bumpUsedBytes1_def)

text \<open>
  C8 (the code at the failing input): the store holds B, of 5 bytes, and the counter cell
  holds 17. The server-mediated worker answers \<^verbatim>\<open>DELETE /api/files/b/B.txt\<close> by deleting B
  and then throwing, the cell still at 17: its adjustment calls \<^verbatim>\<open>atomic\<close>, which the
  binding does not have. The presigning worker answers the same request with 200, deletes
  B and sets the cell to 12. The router of the server-mediated worker also cuts a last
  path segment \<^verbatim>\<open>pin\<close> or \<^verbatim>\<open>access\<close> off the key, whatever the method: the \<^verbatim>\<open>DELETE\<close> of
  a stored key that ends in \<^verbatim>\<open>/pin\<close> is answered 404 and deletes nothing.
\<close>

theorem C8_server_mediated_delete_throws:
  "map_of (FILES scenario_env) ''b/B.txt'' =
     Some (stored [1, 2, 3, 4, 5] 1792929600000
        [(''pinned'', ''false''), (''last_accessed'', ''2026-10-25T12:00:00.000Z'')]) \<and>
   used_bytes (FILES_KV scenario_env) = Some 17 \<and>
   fetch1 table_platform scenario_env (delete_request ''b/B.txt'') =
     (Worker Throws,
      scenario_env\<lparr>FILES := filter (\<lambda>(k, v). k \<noteq> ''b/B.txt'') (FILES scenario_env)\<rparr>) \<and>
   fetch2 table_platform scenario_env (delete_request ''b/B.txt'') =
     (Worker (Returns (200, OkOnly)),
      scenario_env\<lparr>FILES := filter (\<lambda>(k, v). k \<noteq> ''b/B.txt'') (FILES scenario_env),
        FILES_KV := \<lparr>used_bytes = Some 12, pending = Map.empty\<rparr>\<rparr>) \<and>
   map_of (FILES pin_env) ''7d9f2c1e-0000-4000-8000-000000000000/pin'' =
     Some (stored [1, 2, 3, 4] 1793534400000
        [(''pinned'', ''false''), (''last_accessed'', ''2026-11-01T12:00:00.000Z'')]) \<and>
   fetch1 table_platform pin_env (delete_request ''7d9f2c1e-0000-4000-8000-000000000000/pin'') =
     (Worker (Returns (404, Text ''Not found'')), pin_env)"
proof -
  let ?B = "stored [1, 2, 3, 4, 5] 1792929600000
        [(''pinned'', ''false''), (''last_accessed'', ''2026-10-25T12:00:00.000Z'')]"
  have h: "\<not> fails table_platform op" for op
    by (simp add: table_platform_def)
  have dec: "decodeURIComponent table_platform ''b/B.txt'' = Some ''b/B.txt''"
    "decodeURIComponent table_platform ''7d9f2c1e-0000-4000-8000-000000000000/pin'' =
       Some ''7d9f2c1e-0000-4000-8000-000000000000/pin''"
    by (simp_all add: table_platform_def)
  have req: "pathname (delete_request path) = ''/api/files/'' @ path"
    "http_method (delete_request path) = ''DELETE''" for path
    by (simp_all add: delete_request_def)
  have some: "map_of (FILES scenario_env) ''b/B.txt'' = Some ?B"
    by (simp add: scenario_env_def scenario_bucket_def)
  have cell: "used_bytes (FILES_KV scenario_env) = Some 17"
    by (simp add: scenario_env_def)
  have seg: "last_segment ''b/B.txt'' = ''B.txt''"
    "last_segment ''7d9f2c1e-0000-4000-8000-000000000000/pin'' = ''pin''"
    "slice_to ''7d9f2c1e-0000-4000-8000-000000000000/pin''
       (lastIndexOf ''7d9f2c1e-0000-4000-8000-000000000000/pin'' (CHR ''/'')) =
     ''7d9f2c1e-0000-4000-8000-000000000000''"
    by (simp_all add: last_segment_def slice_to_def Let_def)
  have w1: "fetch1 table_platform scenario_env (delete_request ''b/B.txt'') =
     (Worker Throws,
      scenario_env\<lparr>FILES := filter (\<lambda>(k, v). k \<noteq> ''b/B.txt'') (FILES scenario_env)\<rparr>)"
    using route_delete1 [OF req dec(1), of scenario_env] handleDelete_effect(2) [OF h some h]
    by (simp add: seg)
  have w2: "fetch2 table_platform scenario_env (delete_request ''b/B.txt'') =
     (Worker (Returns (200, OkOnly)),
      scenario_env\<lparr>FILES := filter (\<lambda>(k, v). k \<noteq> ''b/B.txt'') (FILES scenario_env),
        FILES_KV := \<lparr>used_bytes = Some 12, pending = Map.empty\<rparr>\<rparr>)"
    using route_delete2 [OF req dec(1), of scenario_env]
      fetch_delete_effect(2) [OF h some table_platform_no_faults]
    by (simp add: counter_def Number_or_0_def size_of_def stored_def scenario_env_def)
  have pin: "map_of (FILES pin_env) ''7d9f2c1e-0000-4000-8000-000000000000/pin'' =
     Some (stored [1, 2, 3, 4] 1793534400000
        [(''pinned'', ''false''), (''last_accessed'', ''2026-11-01T12:00:00.000Z'')])"
    and none: "map_of (FILES pin_env) ''7d9f2c1e-0000-4000-8000-000000000000'' = None"
    by (simp_all add: pin_env_def scenario_env_def scenario_bucket_def)
  have w3: "fetch1 table_platform pin_env (delete_request ''7d9f2c1e-0000-4000-8000-000000000000/pin'') =
     (Worker (Returns (404, Text ''Not found'')), pin_env)"
    using route_delete1 [OF req dec(2), of pin_env] handleDelete_effect(1) [OF h none]
    by (simp add: seg slice_to_def)
  from some cell w1 w2 pin w3 show ?thesis by simp
qed


subsection \<open>Confirm\<close>

lemma map_of_store_put: "map_of (store_put k v b) = (map_of b)(k \<mapsto> v)"
  by (induction b) (auto simp: fun_eq_iff)

lemma found_bytes_cong:
  assumes "\<And>k. map_option size_of (map_of b' k) = map_option size_of (map_of b k)"
  shows "found_bytes b' keys = found_bytes b keys"
proof -
  have "(\<lambda>k. case map_of b' k of None \<Rightarrow> 0 | Some obj \<Rightarrow> size_of obj) =
        (\<lambda>k. case map_of b k of None \<Rightarrow> 0 | Some obj \<Rightarrow> size_of obj)"
  proof (rule ext)
    fix k
    from assms [of k]
    show "(case map_of b' k of None \<Rightarrow> 0 | Some obj \<Rightarrow> size_of obj) =
          (case map_of b k of None \<Rightarrow> 0 | Some obj \<Rightarrow> size_of obj)"
      by (cases "map_of b' k"; cases "map_of b k") simp_all
  qed
  then show ?thesis by (simp only: found_bytes_def)
qed

lemma found_count_cong:
  assumes "\<And>k. map_option size_of (map_of b' k) = map_option size_of (map_of b k)"
  shows "found_count b' keys = found_count b keys"
proof -
  have "(\<lambda>k. map_of b' k \<noteq> None) = (\<lambda>k. map_of b k \<noteq> None)"
  proof (rule ext)
    fix k
    from assms [of k] show "(map_of b' k \<noteq> None) = (map_of b k \<noteq> None)"
      by (cases "map_of b' k"; cases "map_of b k") simp_all
  qed
  then show ?thesis by (simp only: found_count_def)
qed



lemma size_of_confirmed [simp]: "size_of (confirmed_object P pin obj) = size_of obj"
  by (simp add: confirmed_object_def size_of_def)

lemma confirmed_idem [simp]:
  "confirmed_object P pin (confirmed_object P pin obj) = confirmed_object P pin obj"
  by (simp add: confirmed_object_def)

text \<open>No look-up and no rewrite of the keys throws.\<close>

lemma confirm_loop_ok:
  assumes "\<forall>k\<in>set keys. \<not> fails P (R2_head k) \<and> \<not> fails P (R2_get k) \<and> \<not> fails P (R2_put k)"
  shows "\<exists>e'. confirm_loop P pin keys (updated, tot, e) =
           (Returns (updated + found_count (FILES e) keys, tot + found_bytes (FILES e) keys), e') \<and>
         FILES_KV e' = FILES_KV e \<and>
         (\<forall>k. map_of (FILES e') k =
            (if k \<in> set keys then map_option (confirmed_object P pin) (map_of (FILES e) k)
             else map_of (FILES e) k))"
  using assms
proof (induction keys arbitrary: updated tot e)
  case Nil
  show ?case by (simp add: found_count_def found_bytes_def)
next
  case (Cons key keys)
  from Cons.prems have nf: "\<not> fails P (R2_head key)" "\<not> fails P (R2_get key)"
      "\<not> fails P (R2_put key)"
    and rest: "\<forall>k\<in>set keys. \<not> fails P (R2_head k) \<and> \<not> fails P (R2_get k) \<and> \<not> fails P (R2_put k)"
    by simp_all
  note IH = Cons.IH [OF rest]
  show ?case
  proof (cases "map_of (FILES e) key")
    case None
    from IH [of updated tot e] obtain e' where
      "confirm_loop P pin keys (updated, tot, e) =
         (Returns (updated + found_count (FILES e) keys, tot + found_bytes (FILES e) keys), e')"
      "FILES_KV e' = FILES_KV e"
      "\<forall>k. map_of (FILES e') k =
            (if k \<in> set keys then map_option (confirmed_object P pin) (map_of (FILES e) k)
             else map_of (FILES e) k)"
      by blast
    with None show ?thesis
      by (auto simp: r2_head_def nf found_count_def found_bytes_def)
  next
    case (Some obj)
    let ?e1 = "e\<lparr>FILES := store_put key (confirmed_object P pin obj) (FILES e)\<rparr>"
    have m1: "map_of (FILES ?e1) = (map_of (FILES e))(key \<mapsto> confirmed_object P pin obj)"
      by (simp add: map_of_store_put)
    have sz: "map_option size_of (map_of (FILES ?e1) k) = map_option size_of (map_of (FILES e) k)" for k
      using Some by (simp add: map_of_store_put)
    have step: "confirm_loop P pin (key # keys) (updated, tot, e) =
        confirm_loop P pin keys (Suc updated, tot + size_of obj, ?e1)"
      using Some by (simp add: r2_head_def r2_get_def r2_put_def nf confirmed_object_def)
    from IH [of "Suc updated" "tot + size_of obj" ?e1] obtain e' where
      r: "confirm_loop P pin keys (Suc updated, tot + size_of obj, ?e1) =
         (Returns (Suc updated + found_count (FILES ?e1) keys,
                   tot + size_of obj + found_bytes (FILES ?e1) keys), e')"
      and kv: "FILES_KV e' = FILES_KV ?e1"
      and f: "\<forall>k. map_of (FILES e') k =
            (if k \<in> set keys then map_option (confirmed_object P pin) (map_of (FILES ?e1) k)
             else map_of (FILES ?e1) k)"
      by blast
    have "found_count (FILES ?e1) keys = found_count (FILES e) keys"
      and "found_bytes (FILES ?e1) keys = found_bytes (FILES e) keys"
      using sz by (rule found_count_cong, rule found_bytes_cong)
    moreover have "\<forall>k. map_of (FILES e') k =
            (if k \<in> set (key # keys) then map_option (confirmed_object P pin) (map_of (FILES e) k)
             else map_of (FILES e) k)"
      using f Some by (simp add: map_of_store_put)
    ultimately show ?thesis using step r kv Some
      by (auto simp: found_count_def found_bytes_def)
  qed
qed

lemma confirm_loop_no_faults:
  assumes "no_faults P"
  shows "\<exists>e'. confirm_loop P pin keys (updated, tot, e) =
           (Returns (updated + found_count (FILES e) keys, tot + found_bytes (FILES e) keys), e') \<and>
         FILES_KV e' = FILES_KV e \<and>
         (\<forall>k. map_of (FILES e') k =
            (if k \<in> set keys then map_option (confirmed_object P pin) (map_of (FILES e) k)
             else map_of (FILES e) k))"
  using assms by (intro confirm_loop_ok) (simp add: no_faultsD)

lemma bump2_counter:
  "no_faults P \<Longrightarrow>
   bumpUsedBytes2 P e d = Returns (e\<lparr>FILES_KV := (FILES_KV e)\<lparr>used_bytes := Some (counter e + d)\<rparr>\<rparr>)"
  by (simp add: bumpUsedBytes2_def kv_get_used_def kv_put_used_def counter_def no_faultsD)

lemma fetch_confirm_no_faults:
  assumes "no_faults P" and "keys \<noteq> []"
  shows "\<exists>e'. fetch_confirm P e keys pin =
           (Returns (200, Confirmed (found_count (FILES e) keys) (found_bytes (FILES e) keys)), e') \<and>
         counter e' = counter e + found_bytes (FILES e) keys \<and>
         (\<forall>k. map_of (FILES e') k =
            (if k \<in> set keys then map_option (confirmed_object P pin) (map_of (FILES e) k)
             else map_of (FILES e) k))"
proof -
  from confirm_loop_no_faults [OF assms(1), of pin keys 0 0 e] obtain e1 where
    l: "confirm_loop P pin keys (0, 0, e) =
           (Returns (found_count (FILES e) keys, found_bytes (FILES e) keys), e1)"
    and kv: "FILES_KV e1 = FILES_KV e"
    and f: "\<forall>k. map_of (FILES e1) k =
            (if k \<in> set keys then map_option (confirmed_object P pin) (map_of (FILES e) k)
             else map_of (FILES e) k)"
    by auto
  from kv have c: "counter e1 = counter e" by (simp add: counter_def)
  show ?thesis
  proof (cases "found_bytes (FILES e) keys = 0")
    case True
    with l c f assms(2) show ?thesis by (simp add: fetch_confirm_def)
  next
    case False
    with l c f assms show ?thesis
      by (simp add: fetch_confirm_def bump2_counter counter_def Number_or_0_def)
  qed
qed




lemmas eval_defs = table_platform_def scenario_env_def scenario_bucket_def stored_def unconfirmed_env_def
   r2_head_def r2_get_def r2_put_def r2_delete_def bumpUsedBytes2_def bumpUsedBytes1_def kv_get_used_def kv_put_used_def
   size_of_def String_bool_def nowISO_def Number_or_0_def counter_def stored_bytes_def

text \<open>
  C4 (as stated, refuted): the store holds 17 bytes and the counter stands at 12, the 5
  bytes of B not being counted yet. A first confirmation of B raises the counter to 17, the
  bytes stored; a second one with the same key raises it to 22, beyond the 17 bytes stored.
\<close>

theorem C4_second_confirm_counts_again:
  "counter unconfirmed_env = 12 \<and>
   stored_bytes (FILES unconfirmed_env) = 17 \<and>
   fst (fetch_confirm table_platform unconfirmed_env [''b/B.txt''] False) =
     Returns (200, Confirmed 1 5) \<and>
   counter (snd (fetch_confirm table_platform unconfirmed_env [''b/B.txt''] False)) = 17 \<and>
   fst (fetch_confirm table_platform
          (snd (fetch_confirm table_platform unconfirmed_env [''b/B.txt''] False))
          [''b/B.txt''] False) = Returns (200, Confirmed 1 5) \<and>
   counter (snd (fetch_confirm table_platform
          (snd (fetch_confirm table_platform unconfirmed_env [''b/B.txt''] False))
          [''b/B.txt''] False)) = 22 \<and>
   stored_bytes (FILES (snd (fetch_confirm table_platform
          (snd (fetch_confirm table_platform unconfirmed_env [''b/B.txt''] False))
          [''b/B.txt''] False))) = 17"
  by (simp add: fetch_confirm_def eval_defs)

lemma found_bytes_skips_missing:
  "found_bytes b keys = found_bytes b (filter (\<lambda>k. map_of b k \<noteq> None) keys)"
  by (induction keys) (auto simp: found_bytes_def)

lemma ascending_Cons:
  "ascending ((k, v) # b) = ((\<forall>(k', v') \<in> set b. k < k') \<and> ascending b)"
  by (auto simp: ascending_def)

lemma ascending_map_of_None: "ascending ((k, v) # b) \<Longrightarrow> map_of b k = None"
  by (force simp: ascending_Cons map_of_eq_None_iff)

lemma sum_list_one_key:
  assumes "distinct keys" and "g k0 = (0::int)"
  shows "sum_list (map (\<lambda>k. if k = k0 then s else g k) keys) =
         (if k0 \<in> set keys then s else 0) + sum_list (map g keys)"
  using assms by (induction keys) auto

lemma found_bytes_distinct:
  assumes "distinct keys" and "ascending b"
  shows "found_bytes b keys = stored_bytes (filter (\<lambda>(k, obj). k \<in> set keys) b)"
  using assms(2)
proof (induction b)
  case Nil
  show ?case by (simp add: found_bytes_def stored_bytes_def)
next
  case (Cons x b)
  obtain k0 obj0 where x: "x = (k0, obj0)" by (rule prod.exhaust)
  from Cons.prems x have asc: "ascending b" and none: "map_of b k0 = None"
    by (simp add: ascending_Cons, simp add: ascending_map_of_None)
  let ?g = "\<lambda>k. case map_of b k of None \<Rightarrow> 0 | Some obj \<Rightarrow> size_of obj"
  have "(\<lambda>k. case map_of (x # b) k of None \<Rightarrow> 0 | Some obj \<Rightarrow> size_of obj) =
        (\<lambda>k. if k = k0 then size_of obj0 else ?g k)"
    using x by (auto simp: fun_eq_iff)
  then have "found_bytes (x # b) keys =
      sum_list (map (\<lambda>k. if k = k0 then size_of obj0 else ?g k) keys)"
    by (simp only: found_bytes_def)
  also have "\<dots> = (if k0 \<in> set keys then size_of obj0 else 0) + sum_list (map ?g keys)"
    using assms(1) none by (intro sum_list_one_key) simp_all
  also have "sum_list (map ?g keys) = found_bytes b keys" by (simp only: found_bytes_def)
  also have "found_bytes b keys = stored_bytes (filter (\<lambda>(k, obj). k \<in> set keys) b)"
    using asc by (rule Cons.IH)
  finally show ?case using x by (simp add: stored_bytes_def)
qed

text \<open>
  C3 (as stated, refuted): the list of keys names B twice. The only object found is B, of
  5 bytes, so the sizes of the objects found sum to 5; the confirmation answers
  \<^verbatim>\<open>updated = 2\<close> and \<^verbatim>\<open>totalBytes = 10\<close> and raises the counter by 10, from 12 to 22.
\<close>

theorem C3_repeated_key_is_counted_twice:
  "stored_bytes (filter (\<lambda>(k, obj). k \<in> set [''b/B.txt'', ''b/B.txt''])
     (FILES unconfirmed_env)) = 5 \<and>
   counter unconfirmed_env = 12 \<and>
   fst (fetch_confirm table_platform unconfirmed_env [''b/B.txt'', ''b/B.txt''] False) =
     Returns (200, Confirmed 2 10) \<and>
   counter (snd (fetch_confirm table_platform unconfirmed_env [''b/B.txt'', ''b/B.txt''] False)) = 22"
  by (simp add: fetch_confirm_def eval_defs)

text \<open>
  C3 (amended): when no call throws, a confirmation of a non-empty list of keys answers 200
  with the number of look-ups that found an object and the sum of the sizes they found,
  one term for each key of the list that has an object, so that a key listed twice is
  counted twice; keys without an object add nothing to the sum and get no object; the
  counter rises by exactly that sum. When the keys are distinct (and those of the store
  ascend, as the keys of a bucket do) the sum is the size of the stored objects whose keys
  are listed.
\<close>

theorem C3_confirm_counts_found_objects:
  assumes "no_faults P" and "keys \<noteq> []"
  shows "fst (fetch_confirm P e keys pin) =
           Returns (200, Confirmed (found_count (FILES e) keys) (found_bytes (FILES e) keys)) \<and>
         counter (snd (fetch_confirm P e keys pin)) = counter e + found_bytes (FILES e) keys \<and>
         found_bytes (FILES e) keys =
           found_bytes (FILES e) (filter (\<lambda>k. map_of (FILES e) k \<noteq> None) keys) \<and>
         (\<forall>k. map_of (FILES e) k = None \<longrightarrow>
              map_of (FILES (snd (fetch_confirm P e keys pin))) k = None) \<and>
         (distinct keys \<and> ascending (FILES e) \<longrightarrow>
            found_bytes (FILES e) keys =
              stored_bytes (filter (\<lambda>(k, obj). k \<in> set keys) (FILES e)))"
proof -
  from fetch_confirm_no_faults [OF assms, of e pin] obtain e' where
    "fetch_confirm P e keys pin =
       (Returns (200, Confirmed (found_count (FILES e) keys) (found_bytes (FILES e) keys)), e')"
    "counter e' = counter e + found_bytes (FILES e) keys"
    "\<forall>k. map_of (FILES e') k =
        (if k \<in> set keys then map_option (confirmed_object P pin) (map_of (FILES e) k)
         else map_of (FILES e) k)"
    by blast
  then show ?thesis
    using found_bytes_skips_missing [of "FILES e" keys] found_bytes_distinct [of keys "FILES e"]
    by simp
qed

text \<open>
  C4 (amended): when no call throws, a second confirmation of the same keys answers as the
  first did and adds the bytes found once more: after the two calls the counter is its
  initial value plus twice the sum of the sizes found.
\<close>

theorem C4_each_confirm_adds_the_found_bytes:
  assumes "no_faults P" and "keys \<noteq> []"
  shows "fst (fetch_confirm P (snd (fetch_confirm P e keys pin)) keys pin) =
           fst (fetch_confirm P e keys pin) \<and>
         counter (snd (fetch_confirm P (snd (fetch_confirm P e keys pin)) keys pin)) =
           counter e + 2 * found_bytes (FILES e) keys"
proof -
  from fetch_confirm_no_faults [OF assms, of e pin] obtain e1 where
    r1: "fetch_confirm P e keys pin =
       (Returns (200, Confirmed (found_count (FILES e) keys) (found_bytes (FILES e) keys)), e1)"
    and c1: "counter e1 = counter e + found_bytes (FILES e) keys"
    and f1: "\<forall>k. map_of (FILES e1) k =
        (if k \<in> set keys then map_option (confirmed_object P pin) (map_of (FILES e) k)
         else map_of (FILES e) k)"
    by blast
  have sz: "map_option size_of (map_of (FILES e1) k) = map_option size_of (map_of (FILES e) k)" for k
    using f1 by (cases "map_of (FILES e) k") simp_all
  have same: "found_count (FILES e1) keys = found_count (FILES e) keys"
    "found_bytes (FILES e1) keys = found_bytes (FILES e) keys"
    using sz by (rule found_count_cong, rule found_bytes_cong)
  from fetch_confirm_no_faults [OF assms, of e1 pin] obtain e2 where
    "fetch_confirm P e1 keys pin =
       (Returns (200, Confirmed (found_count (FILES e1) keys) (found_bytes (FILES e1) keys)), e2)"
    "counter e2 = counter e1 + found_bytes (FILES e1) keys"
    by blast
  with r1 c1 same show ?thesis by simp
qed

theorem C3_confirm_witness:
  "fst (fetch_confirm table_platform unconfirmed_env [''b/B.txt'', ''x/missing.txt''] True) =
     Returns (200, Confirmed 1 5) \<and>
   counter (snd (fetch_confirm table_platform unconfirmed_env [''b/B.txt'', ''x/missing.txt''] True)) = 17 \<and>
   map_of (FILES (snd (fetch_confirm table_platform unconfirmed_env
     [''b/B.txt'', ''x/missing.txt''] True))) ''x/missing.txt'' = None \<and>
   stored_bytes (filter (\<lambda>(k, obj). k \<in> set [''b/B.txt'', ''x/missing.txt''])
     (FILES unconfirmed_env)) = 5"
proof -
  let ?keys = "[''b/B.txt'', ''x/missing.txt'']"
  have "found_count (FILES unconfirmed_env) ?keys = 1"
    and "found_bytes (FILES unconfirmed_env) ?keys = 5"
    and "counter unconfirmed_env = 12"
    and "map_of (FILES unconfirmed_env) ''x/missing.txt'' = None"
    by (simp_all add: found_count_def found_bytes_def eval_defs)
  moreover have "distinct ?keys \<and> ascending (FILES unconfirmed_env)"
    using scenario_ascending by (simp add: unconfirmed_env_def)
  ultimately show ?thesis
    using C3_confirm_counts_found_objects [OF table_platform_no_faults, of ?keys
        unconfirmed_env True]
    by simp
qed

theorem C4_confirm_twice_witness:
  "counter (snd (fetch_confirm table_platform
      (snd (fetch_confirm table_platform unconfirmed_env [''b/B.txt'', ''d/D.txt''] False))
      [''b/B.txt'', ''d/D.txt''] False)) = 26"
proof -
  have "found_bytes (FILES unconfirmed_env) [''b/B.txt'', ''d/D.txt''] = 7"
    and "counter unconfirmed_env = 12"
    by (simp_all add: found_bytes_def eval_defs)
  with C4_each_confirm_adds_the_found_bytes [OF table_platform_no_faults,
      of "[''b/B.txt'', ''d/D.txt'']" unconfirmed_env False]
  show ?thesis by simp
qed


subsection \<open>The loop of the sweep: paging is transparent\<close>

lemma sweep_page_append:
  "sweep_page P cutoff (xs @ ys) (d, f, e) =
     (case sweep_page P cutoff xs (d, f, e) of
        (Throws, e') \<Rightarrow> (Throws, e')
      | (Returns (d', f'), e') \<Rightarrow> sweep_page P cutoff ys (d', f', e'))"
proof (induction xs arbitrary: d f e)
  case Nil
  show ?case by simp
next
  case (Cons x xs)
  obtain k obj where x: "x = (k, obj)" by (rule prod.exhaust)
  show ?case using Cons.IH x by (cases "r2_delete P e k") simp_all
qed

lemma sweep_page_files:
  "sweep_page P cutoff objs (d, f, e) = (r, e') \<Longrightarrow>
   \<exists>D. D \<subseteq> fst ` set objs \<and> e' = e\<lparr>FILES := filter (\<lambda>(k, v). k \<notin> D) (FILES e)\<rparr>"
proof (induction objs arbitrary: d f e)
  case Nil
  then have "e' = e\<lparr>FILES := filter (\<lambda>(k, v). k \<notin> {}) (FILES e)\<rparr>" by simp
  then show ?case by blast
next
  case (Cons x objs)
  obtain k obj where x: "x = (k, obj)" by (rule prod.exhaust)
  have keep: "e = e\<lparr>FILES := filter (\<lambda>(k, v). k \<notin> {}) (FILES e)\<rparr>" by simp
  show ?case
  proof (cases "eligible P cutoff obj")
    case False
    with Cons.prems x have "sweep_page P cutoff objs (d, f, e) = (r, e')" by simp
    from Cons.IH [OF this] show ?thesis by auto
  next
    case True
    show ?thesis
    proof (cases "r2_delete P e k")
      case Throws
      with Cons.prems x True have "e' = e" by simp
      with keep show ?thesis by blast
    next
      case (Returns e1)
      then have e1: "e1 = e\<lparr>FILES := filter (\<lambda>(k', v). k' \<noteq> k) (FILES e)\<rparr>"
        by (simp add: r2_delete_def split: if_splits)
      from Cons.prems x True Returns
      have "sweep_page P cutoff objs (Suc d, f + size_of obj, e1) = (r, e')" by simp
      from Cons.IH [OF this] obtain D where
        D: "D \<subseteq> fst ` set objs" and e': "e' = e1\<lparr>FILES := filter (\<lambda>(k, v). k \<notin> D) (FILES e1)\<rparr>"
        by blast
      have "filter (\<lambda>(k, v). k \<notin> D) (filter (\<lambda>(k', v). k' \<noteq> k) b) =
            filter (\<lambda>(k', v). k' \<notin> insert k D) b" for b :: r2bucket
        by (induction b) auto
      with e' e1 have "e' = e\<lparr>FILES := filter (\<lambda>(k', v). k' \<notin> insert k D) (FILES e)\<rparr>" by simp
      moreover have "insert k D \<subseteq> fst ` set (x # objs)" using D x by auto
      ultimately show ?thesis by blast
    qed
  qed
qed

lemma ascending_filter: "ascending b \<Longrightarrow> ascending (filter Q b)"
  unfolding ascending_def by (induction b) auto

lemma ascending_append:
  "ascending (xs @ ys) = (ascending xs \<and> ascending ys \<and> (\<forall>x\<in>set xs. \<forall>y\<in>set ys. fst x < fst y))"
  by (auto simp: ascending_def sorted_wrt_append)

lemma ascending_last:
  assumes "ascending xs" and "x \<in> set xs"
  shows "fst x \<le> fst (last xs)"
proof (cases "x = last xs")
  case True
  then show ?thesis by simp
next
  case False
  from assms(2) have ne: "xs \<noteq> []" by auto
  then have xs: "xs = butlast xs @ [last xs]" by simp
  with assms(2) False have "x \<in> set (butlast xs)"
    by (metis Un_iff empty_iff insert_iff list.set(1) list.set(2) set_append)
  moreover from assms(1) xs have "ascending (butlast xs @ [last xs])" by simp
  ultimately have "fst x < fst (last xs)" by (simp add: ascending_append)
  then show ?thesis by simp
qed

lemma filter_after_last_take:
  assumes "ascending xs" and "0 < n" and "n < length xs"
  shows "filter (\<lambda>(k, v). fst (last (take n xs)) < k) xs = drop n xs"
proof -
  let ?A = "take n xs" and ?B = "drop n xs"
  let ?l = "fst (last ?A)"
  from assms have ne: "?A \<noteq> []" by auto
  have asc: "ascending (?A @ ?B)" using assms(1) by simp
  have A: "ascending ?A" and AB: "\<forall>x\<in>set ?A. \<forall>y\<in>set ?B. fst x < fst y"
    using asc [unfolded ascending_append] by blast+
  have "filter (\<lambda>(k, v). ?l < k) ?A = []"
  proof -
    have "\<not> ?l < fst x" if "x \<in> set ?A" for x
      using ascending_last [OF A that] by simp
    then show ?thesis by (auto simp: filter_empty_conv)
  qed
  moreover have "filter (\<lambda>(k, v). ?l < k) ?B = ?B"
  proof -
    have "last ?A \<in> set ?A" using ne by (rule last_in_set)
    with AB have "?l < fst y" if "y \<in> set ?B" for y using that by blast
    then show ?thesis by (auto simp: filter_id_conv)
  qed
  moreover have "filter (\<lambda>(k, v). ?l < k) xs =
      filter (\<lambda>(k, v). ?l < k) ?A @ filter (\<lambda>(k, v). ?l < k) ?B"
    by (simp only: filter_append [symmetric] append_take_drop_id)
  ultimately show ?thesis by simp
qed

lemma list_page_objects:
  "objects (list_page lim b c) = take (page_size lim) (filter (\<lambda>(k, v). after_cursor c k) b)"
  by (simp add: list_page_def Let_def)

lemma list_page_cursor:
  "next_cursor (list_page lim b c) =
     (if page_size lim < length (filter (\<lambda>(k, v). after_cursor c k) b)
      then Some (fst (last (take (page_size lim) (filter (\<lambda>(k, v). after_cursor c k) b))))
      else None)"
  by (simp add: next_cursor_def list_page_def Let_def)

lemma filter_less_swap:
  "filter (\<lambda>(k, v). (c' :: string) < k) (filter (\<lambda>(k, v). k \<notin> D) b) =
   filter (\<lambda>(k, v). k \<notin> D) (filter (\<lambda>(k, v). c' < k) (b :: r2bucket))"
  by (induction b) auto

lemma filter_after_trans:
  assumes "after_cursor c c'"
  shows "filter (\<lambda>(k, v). c' < k) (filter (\<lambda>(k, v). after_cursor c k) (b :: r2bucket)) =
         filter (\<lambda>(k, v). c' < k) b"
proof -
  have "after_cursor c k" if "c' < k" for k
    using assms that by (cases c) (auto simp: after_cursor_def)
  then show ?thesis by (induction b) auto
qed

lemma next_page:
  assumes asc: "ascending b"
    and more: "page_size lim < length (filter (\<lambda>(k, v). after_cursor c k) b)"
    and D: "D \<subseteq> fst ` set (take (page_size lim) (filter (\<lambda>(k, v). after_cursor c k) b))"
  shows "filter (\<lambda>(k, v).
           after_cursor (Some (fst (last (take (page_size lim) (filter (\<lambda>(k, v). after_cursor c k) b))))) k)
           (filter (\<lambda>(k, v). k \<notin> D) b) =
         drop (page_size lim) (filter (\<lambda>(k, v). after_cursor c k) b)"
proof -
  define rest where "rest = filter (\<lambda>(k, v). after_cursor c k) b"
  define L where "L = page_size lim"
  define c' where "c' = fst (last (take L rest))"
  have rest: "ascending rest" unfolding rest_def using asc by (rule ascending_filter)
  have L: "0 < L" by (simp add: L_def page_size_def)
  have more': "L < length rest" using more by (simp add: L_def rest_def)
  have D': "D \<subseteq> fst ` set (take L rest)" using D by (simp add: L_def rest_def)
  have drop: "filter (\<lambda>(k, v). c' < k) rest = drop L rest"
    unfolding c'_def using rest L more' by (rule filter_after_last_take)
  have "take L rest \<noteq> []" using L more' by auto
  then have "last (take L rest) \<in> set (take L rest)" by (rule last_in_set)
  then have "last (take L rest) \<in> set rest" by (rule in_set_takeD)
  then have "case last (take L rest) of (k, v) \<Rightarrow> after_cursor c k"
    unfolding rest_def by simp
  then have c': "after_cursor c c'" by (simp add: c'_def case_prod_beta)
  have b: "filter (\<lambda>(k, v). c' < k) b = drop L rest"
    using filter_after_trans [OF c', of b] drop by (simp add: rest_def)
  have split: "\<forall>x\<in>set (take L rest). \<forall>y\<in>set (drop L rest). fst x < fst y"
  proof -
    have "ascending (take L rest @ drop L rest)" using rest by simp
    then show ?thesis unfolding ascending_append by blast
  qed
  have notD: "fst y \<notin> D" if "y \<in> set (drop L rest)" for y
  proof
    assume "fst y \<in> D"
    with D' obtain x where "x \<in> set (take L rest)" and "fst x = fst y" by auto
    with split that show False by force
  qed
  have "filter (\<lambda>(k, v). c' < k) (filter (\<lambda>(k, v). k \<notin> D) b) =
        filter (\<lambda>(k, v). k \<notin> D) (filter (\<lambda>(k, v). c' < k) b)"
    by (rule filter_less_swap)
  also have "\<dots> = filter (\<lambda>(k, v). k \<notin> D) (drop L rest)" by (simp only: b)
  also have "\<dots> = drop L rest"
    using notD by (auto simp: filter_id_conv)
  finally show ?thesis by (simp add: after_cursor_def c'_def L_def rest_def)
qed

lemma sweep_loop_fusion_aux:
  assumes nl: "\<And>c. \<not> fails P (R2_list c)"
  shows "ascending (FILES (snd (snd s))) \<Longrightarrow>
         sweep_loop P cutoff c s =
         sweep_page P cutoff (filter (\<lambda>(k, v). after_cursor c k) (FILES (snd (snd s)))) s"
  using nl
proof (induction P cutoff c s rule: sweep_loop.induct)
  case (1 P cutoff c deleted freed e)
  let ?rest = "filter (\<lambda>(k, v). after_cursor c k) (FILES e)"
  let ?L = "page_size (list_limit P)"
  let ?page = "take ?L ?rest"
  let ?list = "list_page (list_limit P) (FILES e) c"
  from "1.prems" have asc: "ascending (FILES e)" and nl: "\<And>c. \<not> fails P (R2_list c)"
    by simp_all
  have list: "r2_list P e c = Returns ?list" by (simp add: r2_list_def nl)
  have objs: "objects ?list = ?page" by (rule list_page_objects)
  obtain r e1 where pg: "sweep_page P cutoff ?page (deleted, freed, e) = (r, e1)"
    by (rule prod.exhaust)
  have pg': "(r, e1) = sweep_page P cutoff (objects ?list) (deleted, freed, e)"
    using pg objs by simp
  from sweep_page_files [OF pg] obtain D where
    D: "D \<subseteq> fst ` set ?page" and e1: "e1 = e\<lparr>FILES := filter (\<lambda>(k, v). k \<notin> D) (FILES e)\<rparr>"
    by blast
  have whole: "sweep_page P cutoff ?rest (deleted, freed, e) =
      (case (r, e1) of
         (Throws, e') \<Rightarrow> (Throws, e')
       | (Returns (d', f'), e') \<Rightarrow> sweep_page P cutoff (drop ?L ?rest) (d', f', e'))"
    using sweep_page_append [of P cutoff ?page "drop ?L ?rest" deleted freed e] pg by simp
  show ?case
  proof (cases r)
    case Throws
    have "sweep_loop P cutoff c (deleted, freed, e) = (Throws, e1)"
      by (subst sweep_loop.simps) (simp add: list objs pg Throws)
    with whole Throws show ?thesis by simp
  next
    case (Returns x)
    obtain d1 f1 where x: "x = (d1, f1)" by (rule prod.exhaust)
    show ?thesis
    proof (cases "?L < length ?rest")
      case False
      then have cur: "next_cursor ?list = None" and all: "drop ?L ?rest = []"
        by (simp_all add: list_page_cursor)
      have "sweep_loop P cutoff c (deleted, freed, e) = (Returns (d1, f1), e1)"
        by (subst sweep_loop.simps) (simp add: list objs pg Returns x cur)
      with whole Returns x all show ?thesis by simp
    next
      case True
      let ?c' = "fst (last ?page)"
      from True have cur: "next_cursor ?list = Some ?c'" by (simp add: list_page_cursor)
      have asc1: "ascending (FILES (snd (snd (d1, f1, e1))))"
        using asc e1 by (simp add: ascending_filter)
      have nxt: "filter (\<lambda>(k, v). after_cursor (Some ?c') k) (FILES e1) = drop ?L ?rest"
        using next_page [OF asc True D] e1 by simp
      have "sweep_loop P cutoff c (deleted, freed, e) =
            sweep_loop P cutoff (Some ?c') (d1, f1, e1)"
        by (subst sweep_loop.simps) (simp add: list objs pg Returns x cur)
      also have "\<dots> = sweep_page P cutoff
          (filter (\<lambda>(k, v). after_cursor (Some ?c') k) (FILES (snd (snd (d1, f1, e1))))) (d1, f1, e1)"
        using list pg' Returns x [symmetric] cur asc1 nl
        by (rule "1.IH")
      finally show ?thesis using whole Returns x nxt by simp
    qed
  qed
qed

subsection \<open>The loop of the sweep deletes the eligible objects\<close>

lemma sweep_loop_is_one_pass:
  assumes "\<And>c. \<not> fails P (R2_list c)" and "ascending (FILES e)"
  shows "sweep_loop P cutoff None (d, f, e) = sweep_page P cutoff (FILES e) (d, f, e)"
  using sweep_loop_fusion_aux [of P "(d, f, e)" cutoff None] assms
  by (simp add: after_cursor_def)

lemma sweep_page_deletes:
  assumes "\<forall>(k, obj) \<in> set objs. \<not> fails P (R2_delete k)"
  shows "sweep_page P cutoff objs (d, f, e) =
     (Returns (d + length (doomed P cutoff objs), f + stored_bytes (doomed P cutoff objs)),
      e\<lparr>FILES := filter (\<lambda>(k, v). k \<notin> fst ` set (doomed P cutoff objs)) (FILES e)\<rparr>)"
  using assms
proof (induction objs arbitrary: d f e)
  case Nil
  show ?case by (simp add: doomed_def stored_bytes_def)
next
  case (Cons x objs)
  obtain k obj where x: "x = (k, obj)" by (rule prod.exhaust)
  from Cons.prems x have nf: "\<not> fails P (R2_delete k)"
    and rest: "\<forall>(k, obj) \<in> set objs. \<not> fails P (R2_delete k)" by simp_all
  note IH = Cons.IH [OF rest]
  show ?case
  proof (cases "eligible P cutoff obj")
    case False
    then show ?thesis using IH [of d f e] x by (simp add: doomed_def)
  next
    case True
    let ?e1 = "e\<lparr>FILES := filter (\<lambda>(k', v). k' \<noteq> k) (FILES e)\<rparr>"
    have del: "r2_delete P e k = Returns ?e1" using nf by (simp add: r2_delete_def)
    show ?thesis
      using IH [of "Suc d" "f + size_of obj" ?e1] x True del
      by (simp add: doomed_def stored_bytes_def split_def)
  qed
qed

lemma ascending_distinct: "ascending b \<Longrightarrow> distinct (map fst b)"
  by (simp add: ascending_def strict_sorted_iff)

lemma doomed_key_iff:
  assumes "distinct (map fst b)" and "(k, v) \<in> set b"
  shows "(k \<in> fst ` set (doomed P cutoff b)) = eligible P cutoff v"
proof
  assume "k \<in> fst ` set (doomed P cutoff b)"
  then obtain x where x: "x \<in> set (doomed P cutoff b)" and k: "fst x = k" by blast
  obtain k' v' where kv: "x = (k', v')" by (rule prod.exhaust)
  from x kv have mem: "(k', v') \<in> set b" and el: "eligible P cutoff v'"
    by (simp_all add: doomed_def)
  from k kv have "k' = k" by simp
  with mem have "(k, v') \<in> set b" by simp
  with assms have "v = v'" by (rule eq_key_imp_eq_value)
  with el show "eligible P cutoff v" by simp
next
  assume "eligible P cutoff v"
  with assms(2) have "(k, v) \<in> set (doomed P cutoff b)" by (simp add: doomed_def)
  then have "fst (k, v) \<in> fst ` set (doomed P cutoff b)" by (rule imageI)
  then show "k \<in> fst ` set (doomed P cutoff b)" by simp
qed

lemma survivors_by_key:
  assumes "distinct (map fst b)"
  shows "filter (\<lambda>(k, v). k \<notin> fst ` set (doomed P cutoff b)) b = survivors P cutoff b"
  unfolding survivors_def
proof (rule filter_cong [OF refl])
  fix x assume "x \<in> set b"
  moreover obtain k v where "x = (k, v)" by (rule prod.exhaust)
  ultimately show "(case x of (k, v) \<Rightarrow> k \<notin> fst ` set (doomed P cutoff b)) =
        (case x of (k, obj) \<Rightarrow> \<not> eligible P cutoff obj)"
    using doomed_key_iff [OF assms, of k v P cutoff] by simp
qed

lemma sweep_no_faults:
  assumes "no_faults P" and "ascending (FILES e)"
  shows "sweep_loop P cutoff None (0, 0, e) =
     (Returns (length (doomed P cutoff (FILES e)), stored_bytes (doomed P cutoff (FILES e))),
      e\<lparr>FILES := survivors P cutoff (FILES e)\<rparr>)"
proof -
  have "sweep_loop P cutoff None (0, 0, e) = sweep_page P cutoff (FILES e) (0, 0, e)"
    using assms by (intro sweep_loop_is_one_pass) (simp_all add: no_faultsD)
  also have "\<dots> =
     (Returns (0 + length (doomed P cutoff (FILES e)), 0 + stored_bytes (doomed P cutoff (FILES e))),
      e\<lparr>FILES := filter (\<lambda>(k, v). k \<notin> fst ` set (doomed P cutoff (FILES e))) (FILES e)\<rparr>)"
    using assms(1) by (intro sweep_page_deletes) (simp add: no_faultsD case_prod_beta)
  finally show ?thesis
    using survivors_by_key [OF ascending_distinct [OF assms(2)], of P cutoff] by simp
qed

lemma stamp_js_or:
  "js_or (customMetadata obj ''last_accessed'') (js_or (Some (Date_toString P (uploaded obj))) []) =
   stamp P obj"
  by (auto simp: js_or_def stamp_def split: option.splits)

lemma eligible_stamp:
  "eligible P cutoff obj =
     (customMetadata obj ''pinned'' \<noteq> Some ''true'' \<and>
      (case Date_parse P (stamp P obj) of None \<Rightarrow> True | Some t \<Rightarrow> t < cutoff))"
  by (simp add: eligible_def Let_def stamp_js_or)

lemma cleanup_no_faults:
  assumes "no_faults P" and "ascending (FILES e)"
  shows "scheduled_branch P e (Some ''cron'') =
     (Returns (200, CleanupDone (length (doomed P (now P - ONE_WEEK_MS) (FILES e)))
                 (stored_bytes (doomed P (now P - ONE_WEEK_MS) (FILES e)))),
      if stored_bytes (doomed P (now P - ONE_WEEK_MS) (FILES e)) \<noteq> 0
      then e\<lparr>FILES := survivors P (now P - ONE_WEEK_MS) (FILES e),
             FILES_KV := (FILES_KV e)\<lparr>used_bytes :=
               Some (counter e - stored_bytes (doomed P (now P - ONE_WEEK_MS) (FILES e)))\<rparr>\<rparr>
      else e\<lparr>FILES := survivors P (now P - ONE_WEEK_MS) (FILES e)\<rparr>)"
  using assms
  by (simp add: scheduled_branch_def sweep_no_faults bump2_counter counter_def)

lemma scenario_doomed:
  "doomed table_platform (now table_platform - ONE_WEEK_MS) (FILES scenario_env) =
     [(''b/B.txt'', stored [1, 2, 3, 4, 5] 1792929600000
         [(''pinned'', ''false''), (''last_accessed'', ''2026-10-25T12:00:00.000Z'')])]"
  by (simp add: doomed_def eligible_def js_or_def ONE_WEEK_MS_def table_platform_def
      scenario_env_def scenario_bucket_def stored_def)

lemma branch_deletes_the_eligible:
  assumes "no_faults P" and "ascending (FILES e)"
  shows "fst (scheduled_branch P e (Some ''cron'')) =
           Returns (200, CleanupDone (length (doomed P (now P - ONE_WEEK_MS) (FILES e)))
                      (stored_bytes (doomed P (now P - ONE_WEEK_MS) (FILES e))))"
    and "FILES (snd (scheduled_branch P e (Some ''cron''))) =
           survivors P (now P - ONE_WEEK_MS) (FILES e)"
    and "counter (snd (scheduled_branch P e (Some ''cron''))) =
           counter e - stored_bytes (doomed P (now P - ONE_WEEK_MS) (FILES e))"
  using cleanup_no_faults [OF assms]
  by (simp_all add: counter_def Number_or_0_def)

subsection \<open>The sweep is never reached\<close>

text \<open>
  C2 (the code at the failing input): both routers answer every path that does not begin
  with \<^verbatim>\<open>/api/\<close> from the static assets, and only then test for \<^verbatim>\<open>/__scheduled\<close>. Whatever
  the platform, the store and the rest of the request, a request for \<^verbatim>\<open>/__scheduled\<close> is
  answered by the assets and leaves the bindings as they were: the loop of the sweep is
  never run. In the sweep scenario of the specification B is not pinned and was last read
  8 days ago, so the rule of the claim, and that of the loop, have it deleted;
  \<^verbatim>\<open>GET /__scheduled?token=cron\<close> leaves B stored and the counter cell at 17.
\<close>

theorem C2_sweep_route_is_shadowed:
  "fetch1 P e (req\<lparr>pathname := ''/__scheduled''\<rparr>) = (Served_by_ASSETS, e) \<and>
   fetch2 P e (req\<lparr>pathname := ''/__scheduled''\<rparr>) = (Served_by_ASSETS, e) \<and>
   map_of (FILES scenario_env) ''b/B.txt'' =
     Some (stored [1, 2, 3, 4, 5] 1792929600000
        [(''pinned'', ''false''), (''last_accessed'', ''2026-10-25T12:00:00.000Z'')]) \<and>
   claimed_eligible table_platform (now table_platform - ONE_WEEK_MS)
     (stored [1, 2, 3, 4, 5] 1792929600000
        [(''pinned'', ''false''), (''last_accessed'', ''2026-10-25T12:00:00.000Z'')]) \<and>
   eligible table_platform (now table_platform - ONE_WEEK_MS)
     (stored [1, 2, 3, 4, 5] 1792929600000
        [(''pinned'', ''false''), (''last_accessed'', ''2026-10-25T12:00:00.000Z'')]) \<and>
   fetch1 table_platform scenario_env cron_request = (Served_by_ASSETS, scenario_env) \<and>
   fetch2 table_platform scenario_env cron_request = (Served_by_ASSETS, scenario_env)"
proof -
  let ?B = "stored [1, 2, 3, 4, 5] 1792929600000
        [(''pinned'', ''false''), (''last_accessed'', ''2026-10-25T12:00:00.000Z'')]"
  have "fetch1 P e (req\<lparr>pathname := ''/__scheduled''\<rparr>) = (Served_by_ASSETS, e)"
    and "fetch2 P e (req\<lparr>pathname := ''/__scheduled''\<rparr>) = (Served_by_ASSETS, e)"
    by (rule outside_api, simp)+
  moreover have "fetch1 table_platform scenario_env cron_request = (Served_by_ASSETS, scenario_env)"
    and "fetch2 table_platform scenario_env cron_request = (Served_by_ASSETS, scenario_env)"
    by (rule outside_api, simp add: cron_request_def)+
  moreover have "map_of (FILES scenario_env) ''b/B.txt'' = Some ?B"
    by (simp add: scenario_env_def scenario_bucket_def)
  moreover have "claimed_eligible table_platform (now table_platform - ONE_WEEK_MS) ?B"
    and "eligible table_platform (now table_platform - ONE_WEEK_MS) ?B"
    by (simp_all add: claimed_eligible_def eligible_def js_or_def ONE_WEEK_MS_def
        table_platform_def stored_def)
  ultimately show ?thesis by simp
qed

subsection \<open>A throw aborts a confirmation\<close>

lemma confirm_loop_append:
  "confirm_loop P pin (xs @ ys) (u, t, e) =
     (case confirm_loop P pin xs (u, t, e) of
        (Throws, e') \<Rightarrow> (Throws, e')
      | (Returns (u', t'), e') \<Rightarrow> confirm_loop P pin ys (u', t', e'))"
proof (induction xs arbitrary: u t e)
  case Nil
  show ?case by simp
next
  case (Cons x xs)
  show ?case
    by (simp add: Cons.IH Let_def split: outcome.splits option.splits)
qed

lemma confirm_aborts:
  assumes "keys = kpre @ key # kpost"
    and "\<forall>k\<in>set kpre. \<not> fails P (R2_head k) \<and> \<not> fails P (R2_get k) \<and> \<not> fails P (R2_put k)"
    and "\<not> fails P (R2_head key)" and "\<not> fails P (R2_get key)" and "fails P (R2_put key)"
    and "map_of (FILES e) key = Some obj"
  shows "\<exists>e'. fetch_confirm P e keys pin = (Throws, e') \<and> FILES_KV e' = FILES_KV e \<and>
           (\<forall>k. map_of (FILES e') k =
              (if k \<in> set kpre then map_option (confirmed_object P pin) (map_of (FILES e) k)
               else map_of (FILES e) k))"
proof -
  from confirm_loop_ok [OF assms(2), of pin 0 0 e] obtain e1 where
    l: "confirm_loop P pin kpre (0, 0, e) =
           (Returns (found_count (FILES e) kpre, found_bytes (FILES e) kpre), e1)"
    and kv: "FILES_KV e1 = FILES_KV e"
    and f: "\<forall>k. map_of (FILES e1) k =
            (if k \<in> set kpre then map_option (confirmed_object P pin) (map_of (FILES e) k)
             else map_of (FILES e) k)"
    by auto
  from assms(2,5) have "key \<notin> set kpre" by blast
  with f assms(6) have found: "map_of (FILES e1) key = Some obj" by simp
  have "confirm_loop P pin (key # kpost)
          (found_count (FILES e) kpre, found_bytes (FILES e) kpre, e1) = (Throws, e1)"
    using found assms(3,4,5) by (simp add: r2_head_def r2_get_def r2_put_def)
  with l have "confirm_loop P pin keys (0, 0, e) = (Throws, e1)"
    by (simp add: assms(1) confirm_loop_append)
  then have "fetch_confirm P e keys pin = (Throws, e1)"
    by (simp add: fetch_confirm_def assms(1))
  with kv f show ?thesis by blast
qed

text \<open>
  C7 (as stated, refuted): the keys B, D and C are confirmed, and the rewrite of D throws.
  The handler throws: B has been rewritten, C, which comes after D in the list, is never
  processed and keeps the metadata it had, no counts are returned, and the counter cell
  keeps its 12.
\<close>

theorem C7_failed_rewrite_aborts_the_confirmation:
  "fst (fetch_confirm flaky_put unconfirmed_env [''b/B.txt'', ''d/D.txt'', ''c/C.txt''] True) =
     Throws \<and>
   map_of (FILES unconfirmed_env) ''c/C.txt'' =
     Some (stored [1, 2, 3, 4, 5, 6, 7] 1793534400000 [(''pinned'', ''false'')]) \<and>
   map_of (FILES (snd (fetch_confirm flaky_put unconfirmed_env
      [''b/B.txt'', ''d/D.txt'', ''c/C.txt''] True))) ''c/C.txt'' =
     Some (stored [1, 2, 3, 4, 5, 6, 7] 1793534400000 [(''pinned'', ''false'')]) \<and>
   map_option (\<lambda>obj. customMetadata obj ''pinned'')
     (map_of (FILES (snd (fetch_confirm flaky_put unconfirmed_env
        [''b/B.txt'', ''d/D.txt'', ''c/C.txt''] True))) ''b/B.txt'') = Some (Some ''true'') \<and>
   used_bytes (FILES_KV (snd (fetch_confirm flaky_put unconfirmed_env
      [''b/B.txt'', ''d/D.txt'', ''c/C.txt''] True))) = Some 12"
  by (simp add: fetch_confirm_def flaky_put_def eval_defs)

text \<open>
  C7 (amended): the loop of confirm does not isolate a failure. When the rewrite of a found
  key throws (no earlier call having thrown), the handler throws: the keys before it are
  rewritten, the failing key and every later key are left as they were, no counts are
  returned and the counter is not adjusted. When no call throws, every key of the list is
  processed: the counts cover all the keys, and every key that has an object is rewritten.
\<close>

theorem C7_a_throw_aborts_the_confirmation:
  "(keys = kpre @ key # kpost \<and>
    (\<forall>k\<in>set kpre. \<not> fails P (R2_head k) \<and> \<not> fails P (R2_get k) \<and> \<not> fails P (R2_put k)) \<and>
    \<not> fails P (R2_head key) \<and> \<not> fails P (R2_get key) \<and> fails P (R2_put key) \<and>
    map_of (FILES e) key = Some found \<longrightarrow>
      fst (fetch_confirm P e keys pin) = Throws \<and>
      FILES_KV (snd (fetch_confirm P e keys pin)) = FILES_KV e \<and>
      (\<forall>k. map_of (FILES (snd (fetch_confirm P e keys pin))) k =
           (if k \<in> set kpre then map_option (confirmed_object P pin) (map_of (FILES e) k)
            else map_of (FILES e) k))) \<and>
   (no_faults P \<and> keys \<noteq> [] \<longrightarrow>
      fst (fetch_confirm P e keys pin) =
        Returns (200, Confirmed (found_count (FILES e) keys) (found_bytes (FILES e) keys)) \<and>
      (\<forall>k. map_of (FILES (snd (fetch_confirm P e keys pin))) k =
           (if k \<in> set keys then map_option (confirmed_object P pin) (map_of (FILES e) k)
            else map_of (FILES e) k)))"
proof (intro conjI impI)
  assume a: "keys = kpre @ key # kpost \<and>
    (\<forall>k\<in>set kpre. \<not> fails P (R2_head k) \<and> \<not> fails P (R2_get k) \<and> \<not> fails P (R2_put k)) \<and>
    \<not> fails P (R2_head key) \<and> \<not> fails P (R2_get key) \<and> fails P (R2_put key) \<and>
    map_of (FILES e) key = Some found"
  then obtain e' where r: "fetch_confirm P e keys pin = (Throws, e')"
    and kv: "FILES_KV e' = FILES_KV e"
    and f: "\<forall>k. map_of (FILES e') k =
              (if k \<in> set kpre then map_option (confirmed_object P pin) (map_of (FILES e) k)
               else map_of (FILES e) k)"
    using confirm_aborts [of keys kpre key kpost P e found pin] by blast
  from r show "fst (fetch_confirm P e keys pin) = Throws" by simp
  from r kv show "FILES_KV (snd (fetch_confirm P e keys pin)) = FILES_KV e" by simp
  from r f show "\<forall>k. map_of (FILES (snd (fetch_confirm P e keys pin))) k =
           (if k \<in> set kpre then map_option (confirmed_object P pin) (map_of (FILES e) k)
            else map_of (FILES e) k)" by simp
next
  assume "no_faults P \<and> keys \<noteq> []"
  then obtain e' where r: "fetch_confirm P e keys pin =
       (Returns (200, Confirmed (found_count (FILES e) keys) (found_bytes (FILES e) keys)), e')"
    and f: "\<forall>k. map_of (FILES e') k =
        (if k \<in> set keys then map_option (confirmed_object P pin) (map_of (FILES e) k)
         else map_of (FILES e) k)"
    using fetch_confirm_no_faults [of P keys e pin] by blast
  from r show "fst (fetch_confirm P e keys pin) =
        Returns (200, Confirmed (found_count (FILES e) keys) (found_bytes (FILES e) keys))"
    by simp
  from r f show "\<forall>k. map_of (FILES (snd (fetch_confirm P e keys pin))) k =
           (if k \<in> set keys then map_option (confirmed_object P pin) (map_of (FILES e) k)
            else map_of (FILES e) k)" by simp
qed

theorem C7_abort_witness:
  "fst (fetch_confirm flaky_put unconfirmed_env [''b/B.txt'', ''d/D.txt'', ''c/C.txt''] False) =
     Throws \<and>
   used_bytes (FILES_KV (snd (fetch_confirm flaky_put unconfirmed_env
      [''b/B.txt'', ''d/D.txt'', ''c/C.txt''] False))) = Some 12 \<and>
   fst (fetch_confirm table_platform unconfirmed_env [''b/B.txt'', ''d/D.txt'', ''c/C.txt''] False) =
     Returns (200, Confirmed 3 14)"
proof -
  let ?D = "stored [1, 2] 1793534400000
         [(''pinned'', ''false''), (''last_accessed'', ''2026-11-01T12:00:00.000Z'')]"
  let ?keys = "[''b/B.txt'', ''d/D.txt'', ''c/C.txt'']"
  have confirm_hyps: "?keys = [''b/B.txt''] @ ''d/D.txt'' # [''c/C.txt''] \<and>
      (\<forall>k\<in>set [''b/B.txt'']. \<not> fails flaky_put (R2_head k) \<and> \<not> fails flaky_put (R2_get k) \<and>
         \<not> fails flaky_put (R2_put k)) \<and>
      \<not> fails flaky_put (R2_head ''d/D.txt'') \<and> \<not> fails flaky_put (R2_get ''d/D.txt'') \<and>
      fails flaky_put (R2_put ''d/D.txt'') \<and>
      map_of (FILES unconfirmed_env) ''d/D.txt'' = Some ?D"
    by (simp add: flaky_put_def unconfirmed_env_def scenario_env_def scenario_bucket_def)
  from C7_a_throw_aborts_the_confirmation [where P = flaky_put and e = unconfirmed_env
      and keys = ?keys and kpre = "[''b/B.txt'']"
      and key = "''d/D.txt''" and kpost = "[''c/C.txt'']" and found = ?D and pin = False] confirm_hyps
  have 1: "fst (fetch_confirm flaky_put unconfirmed_env ?keys False) = Throws"
    and 2: "FILES_KV (snd (fetch_confirm flaky_put unconfirmed_env ?keys False)) =
      FILES_KV unconfirmed_env"
    by blast+
  have counts: "found_count (FILES unconfirmed_env) ?keys = 3"
    "found_bytes (FILES unconfirmed_env) ?keys = 14"
    by (simp_all add: found_count_def found_bytes_def eval_defs)
  from C7_a_throw_aborts_the_confirmation [where P = table_platform and e = unconfirmed_env
      and keys = ?keys and pin = False] table_platform_no_faults
  have "fst (fetch_confirm table_platform unconfirmed_env ?keys False) =
      Returns (200, Confirmed (found_count (FILES unconfirmed_env) ?keys)
        (found_bytes (FILES unconfirmed_env) ?keys))"
    by simp
  with 1 2 counts show ?thesis by (simp add: unconfirmed_env_def)
qed

subsection \<open>The quota gate\<close>

lemma round_double_small: "\<bar>n\<bar> < 2 ^ 53 \<Longrightarrow> round_double n = Num n"
  by (simp add: round_double_def)

lemma bitlen_between: "2 ^ k \<le> n \<Longrightarrow> n < 2 ^ Suc k \<Longrightarrow> bitlen n = Suc k"
proof (induction k arbitrary: n)
  case 0
  then have "n = 1" by simp
  then show ?case by (simp add: bitlen.simps)
next
  case (Suc k)
  then have "2 ^ k \<le> n div 2" and "n div 2 < 2 ^ Suc k" and "n \<noteq> 0"
    by auto
  with Suc.IH [of "n div 2"] show ?case by (subst bitlen.simps) simp
qed

lemma bitlen_54: "bitlen 9007199254740992 = 54" "bitlen 9007199254740993 = 54"
  "bitlen 9007199254740995 = 54"
  using bitlen_between [of 53 9007199254740992] bitlen_between [of 53 9007199254740993]
    bitlen_between [of 53 9007199254740995]
  by simp_all

lemma round_double_ties:
  "round_double 9007199254740992 = Num 9007199254740992"
  "round_double 9007199254740993 = Num 9007199254740992"
  "round_double 9007199254740995 = Num 9007199254740996"
  by (simp_all add: round_double_def bitlen_54 Let_def) 

text \<open>The exact sum of the rounding batch is 3; the sum the worker computes is 2.\<close>

lemma sum_in_double_precision:
  "declared_bytes rounding_batch = 3" "declared_total rounding_batch = Num 2"
  by (simp_all add: rounding_batch_def declared_bytes_def declared_total_def round_double_ties
      round_double_small)

lemma check_files_result:
  "check_files files t =
     (if list_all (\<lambda>f. isAllowed2 (ftype f) (Some (fname f))) files
      then Inr (fold (\<lambda>f t. plus_number t (Number_or_zero (round_double (fsize f)))) files t)
      else Inl (415, Failure (''Unsupported type for '' @
             fname (hd (filter (\<lambda>f. \<not> isAllowed2 (ftype f) (Some (fname f))) files)))))"
  by (induction files arbitrary: t) auto

lemma fold_sizes_exact:
  assumes "\<forall>f\<in>set files. \<bar>fsize f\<bar> \<le> 2 ^ 48"
    and "\<bar>t\<bar> + int (length files) * 2 ^ 48 < 2 ^ 53"
  shows "fold (\<lambda>f t. plus_number t (Number_or_zero (round_double (fsize f)))) files (Num t) =
         Num (t + declared_bytes files)"
  using assms
proof (induction files arbitrary: t)
  case Nil
  show ?case by (simp add: declared_bytes_def)
next
  case (Cons f files)
  from Cons.prems have x: "\<bar>fsize f\<bar> \<le> 2 ^ 48"
    and rest: "\<forall>f\<in>set files. \<bar>fsize f\<bar> \<le> 2 ^ 48"
    and room: "\<bar>t\<bar> + (1 + int (length files)) * 2 ^ 48 < 2 ^ 53"
    by simp_all
  from x have "\<bar>fsize f\<bar> < 2 ^ 53" by simp
  then have r: "round_double (fsize f) = Num (fsize f)" by (rule round_double_small)
  from x room have "\<bar>t + fsize f\<bar> < 2 ^ 53" by (simp add: algebra_simps)
  then have s: "round_double (t + fsize f) = Num (t + fsize f)" by (rule round_double_small)
  from x room have "\<bar>t + fsize f\<bar> + int (length files) * 2 ^ 48 < 2 ^ 53"
    by (simp add: algebra_simps)
  from Cons.IH [OF rest this] r s show ?case by (simp add: declared_bytes_def)
qed

lemma declared_bytes_bound:
  assumes "\<forall>f\<in>set files. \<bar>fsize f\<bar> \<le> 2 ^ 48"
  shows "\<bar>declared_bytes files\<bar> \<le> int (length files) * 2 ^ 48"
  using assms
proof (induction files)
  case Nil
  show ?case by (simp add: declared_bytes_def)
next
  case (Cons f files)
  then have "\<bar>fsize f\<bar> \<le> 2 ^ 48" and "\<bar>declared_bytes files\<bar> \<le> int (length files) * 2 ^ 48"
    by simp_all
  then show ?case by (simp add: declared_bytes_def algebra_simps)
qed

lemma declared_total_exact:
  assumes "\<forall>f\<in>set files. \<bar>fsize f\<bar> \<le> 2 ^ 48" and "length files \<le> MAX_FILES_PER_BATCH"
  shows "declared_total files = Num (declared_bytes files)"
proof -
  from assms(2) have "int (length files) \<le> 20" by (simp add: MAX_FILES_PER_BATCH_def)
  then have "int (length files) * 2 ^ 48 \<le> 20 * 2 ^ 48" by simp
  then have "\<bar>0::int\<bar> + int (length files) * 2 ^ 48 < 2 ^ 53" by simp
  from fold_sizes_exact [OF assms(1) this] show ?thesis by (simp add: declared_total_def)
qed

lemma reaches_limit_exact:
  assumes "\<forall>f\<in>set files. \<bar>fsize f\<bar> \<le> 2 ^ 48" and "length files \<le> MAX_FILES_PER_BATCH"
    and "\<bar>used\<bar> \<le> 2 ^ 48"
  shows "reaches_limit used (declared_total files) = (BYTES_LIMIT \<le> used + declared_bytes files)"
proof -
  from assms(2) have "int (length files) \<le> 20" by (simp add: MAX_FILES_PER_BATCH_def)
  then have "int (length files) * 2 ^ 48 \<le> 20 * 2 ^ 48" by simp
  with declared_bytes_bound [OF assms(1)] have d: "\<bar>declared_bytes files\<bar> \<le> 20 * 2 ^ 48" by simp
  from assms(3) have "\<bar>used\<bar> < 2 ^ 53" by simp
  then have u: "round_double used = Num used" by (rule round_double_small)
  from d assms(3) have "\<bar>used + declared_bytes files\<bar> < 2 ^ 53" by simp
  then have "round_double (used + declared_bytes files) = Num (used + declared_bytes files)"
    by (rule round_double_small)
  with u show ?thesis
    by (simp add: reaches_limit_def declared_total_exact [OF assms(1,2)])
qed

lemma check_entries_ok:
  "list_all (\<lambda>en. case en of FileEntry f \<Rightarrow> isAllowed1 (file_type f) (file_name f)
                            | FieldEntry s \<Rightarrow> False) entries \<Longrightarrow>
   check_entries entries t = Inr (t + batch_bytes entries)"
proof (induction entries arbitrary: t)
  case Nil
  show ?case by (simp add: batch_bytes_def)
next
  case (Cons en entries)
  then show ?case by (cases en) (simp_all add: batch_bytes_def)
qed

lemma check_entries_bad:
  "\<not> list_all (\<lambda>en. case en of FileEntry f \<Rightarrow> isAllowed1 (file_type f) (file_name f)
                              | FieldEntry s \<Rightarrow> False) entries \<Longrightarrow>
   \<exists>s m. check_entries entries t = Inl (s, Text m)"
proof (induction entries arbitrary: t)
  case Nil
  then show ?case by simp
next
  case (Cons en entries)
  then show ?case by (cases en) (simp_all split: if_splits)
qed

lemma quota_rejected_simps [simp]:
  "quota_rejected Throws = False"
  "quota_rejected (Returns (s, Text m)) = False"
  "quota_rejected (Returns (s, Failure m)) = False"
  "quota_rejected (Returns (s, Uploaded rs)) = False"
  "quota_rejected (Returns (s, UploadUrls us b)) = False"
  "quota_rejected (Returns (s, QuotaError u l)) = (s = 413 \<and> l = BYTES_LIMIT)"
  by (simp_all add: quota_rejected_def)

lemma upload_urls_quota_iff:
  "quota_rejected (fst (fetch_upload_urls P e files pin)) =
     (admissible2 files \<and> reaches_limit (fst (getUsedBytes2 P e)) (declared_total files))"
  by (cases "getUsedBytes2 P e")
     (auto simp: fetch_upload_urls_def admissible2_def check_files_result Let_def
        reaches_limit_def declared_total_def)

lemma upload_urls_rejection:
  assumes "admissible2 files"
    and "reaches_limit (fst (getUsedBytes2 P e)) (declared_total files)"
  shows "fetch_upload_urls P e files pin =
     (Returns (413, QuotaError (fst (getUsedBytes2 P e)) BYTES_LIMIT), snd (getUsedBytes2 P e))"
  using assms
  by (cases "getUsedBytes2 P e")
     (auto simp: fetch_upload_urls_def admissible2_def check_files_result Let_def
        reaches_limit_def declared_total_def)


lemma upload_quota_iff:
  "quota_rejected (fst (handleUpload P e entries pin)) =
     (admissible1 entries \<and>
      (case fst (getUsedBytes1 P e) of
         Throws \<Rightarrow> False
       | Returns used \<Rightarrow> BYTES_LIMIT \<le> used + batch_bytes entries))"
proof (cases "admissible1 entries")
  case False
  show ?thesis
  proof (cases "entries = [] \<or> MAX_FILES_PER_BATCH < length entries")
    case True
    with False show ?thesis by (auto simp: handleUpload_def)
  next
    case size_ok: False
    with False have "\<not> list_all (\<lambda>en. case en of
        FileEntry f \<Rightarrow> isAllowed1 (file_type f) (file_name f) | FieldEntry s \<Rightarrow> False) entries"
      by (auto simp: admissible1_def)
    from check_entries_bad [OF this, of 0] obtain s m where
      "check_entries entries 0 = Inl (s, Text m)" by blast
    with False size_ok show ?thesis by (simp add: handleUpload_def)
  qed
next
  case True
  then have ok: "check_entries entries 0 = Inr (batch_bytes entries)"
    and ne: "entries \<noteq> []" "\<not> MAX_FILES_PER_BATCH < length entries"
    by (simp_all add: admissible1_def check_entries_ok)
  obtain r e1 where g: "getUsedBytes1 P e = (r, e1)" by (rule prod.exhaust)
  show ?thesis
  proof (cases r)
    case Throws
    with True g ok ne show ?thesis by (simp add: handleUpload_def)
  next
    case (Returns used)
    obtain r2 e2 where s: "store_entries P pin 0 entries ([], e1) = (r2, e2)"
      by (rule prod.exhaust)
    from True g Returns s ok ne show ?thesis
      by (cases r2) (simp_all add: handleUpload_def)
  qed
qed

lemma upload_rejection:
  assumes "admissible1 entries" and "getUsedBytes1 P e = (Returns used, e1)"
    and "BYTES_LIMIT \<le> used + batch_bytes entries"
  shows "handleUpload P e entries pin = (Returns (413, QuotaError used BYTES_LIMIT), e1)"
  using assms by (simp add: handleUpload_def admissible1_def check_entries_ok)

lemma fold_sizes:
  "fold (\<lambda>(k, obj) t. t + size_of obj) objs t = t + stored_bytes objs"
  by (induction objs arbitrary: t) (auto simp: stored_bytes_def)

lemma stored_bytes_append: "stored_bytes (xs @ ys) = stored_bytes xs + stored_bytes ys"
  by (simp add: stored_bytes_def)

lemma sum_listing_fusion:
  assumes nl: "\<And>c. \<not> fails P (R2_list c)"
  shows "ascending (FILES e) \<Longrightarrow>
         sum_listing P e c t =
         Returns (t + stored_bytes (filter (\<lambda>(k, v). after_cursor c k) (FILES e)))"
  using nl
proof (induction P e c t rule: sum_listing.induct)
  case (1 P e c t)
  let ?rest = "filter (\<lambda>(k, v). after_cursor c k) (FILES e)"
  let ?L = "page_size (list_limit P)"
  let ?list = "list_page (list_limit P) (FILES e) c"
  from "1.prems" have asc: "ascending (FILES e)" and nl: "\<And>c. \<not> fails P (R2_list c)"
    by simp_all
  have list: "r2_list P e c = Returns ?list" by (simp add: r2_list_def nl)
  have objs: "objects ?list = take ?L ?rest" by (rule list_page_objects)
  have parts: "stored_bytes ?rest = stored_bytes (take ?L ?rest) + stored_bytes (drop ?L ?rest)"
    by (simp only: stored_bytes_append [symmetric] append_take_drop_id)
  show ?case
  proof (cases "?L < length ?rest")
    case False
    then have cur: "next_cursor ?list = None" and all: "take ?L ?rest = ?rest"
      by (simp_all add: list_page_cursor)
    show ?thesis
      by (subst sum_listing.simps) (simp add: list objs cur all fold_sizes)
  next
    case True
    let ?c' = "fst (last (take ?L ?rest))"
    from True have cur: "next_cursor ?list = Some ?c'" by (simp add: list_page_cursor)
    have nxt: "filter (\<lambda>(k, v). after_cursor (Some ?c') k) (FILES e) = drop ?L ?rest"
      using next_page [OF asc True, of "{}"] by simp
    have "sum_listing P e c t =
          sum_listing P e (Some ?c') (fold (\<lambda>(k, obj) t. t + size_of obj) (objects ?list) t)"
      by (subst sum_listing.simps) (simp add: list cur Let_def)
    also have "\<dots> = Returns (fold (\<lambda>(k, obj) t. t + size_of obj) (objects ?list) t +
        stored_bytes (filter (\<lambda>(k, v). after_cursor (Some ?c') k) (FILES e)))"
      using list refl cur asc nl by (rule "1.IH")
    finally show ?thesis using parts by (simp add: objs nxt fold_sizes)
  qed
qed

lemma sum_listing_all:
  assumes "\<And>c. \<not> fails P (R2_list c)" and "ascending (FILES e)"
  shows "sum_listing P e None 0 = Returns (stored_bytes (FILES e))"
  using sum_listing_fusion [OF assms, of None 0] by (simp add: after_cursor_def)

lemma getUsedBytes2_effect:
  "only_initialised e (fst (getUsedBytes2 P e)) (snd (getUsedBytes2 P e))"
  by (auto simp: only_initialised_def getUsedBytes2_def kv_get_used_def kv_put_used_def
      split: outcome.splits option.splits)

lemma getUsedBytes1_effect:
  "fst (getUsedBytes1 P e) = Returns used \<Longrightarrow> only_initialised e used (snd (getUsedBytes1 P e))"
  by (auto simp: only_initialised_def getUsedBytes1_def kv_get_used_def kv_put_used_def
      split: outcome.splits option.splits if_splits)

lemma getUsedBytes_present:
  assumes "used_bytes (FILES_KV e) = Some u" and "\<not> fails P (KV_get ''used_bytes'')"
  shows "getUsedBytes2 P e = (u, e)" and "getUsedBytes1 P e = (Returns u, e)"
  using assms by (simp_all add: getUsedBytes2_def getUsedBytes1_def kv_get_used_def)

lemma getUsedBytes_absent:
  assumes "used_bytes (FILES_KV e) = None" and "no_faults P" and "ascending (FILES e)"
  shows "getUsedBytes2 P e =
           (stored_bytes (FILES e),
            e\<lparr>FILES_KV := (FILES_KV e)\<lparr>used_bytes := Some (stored_bytes (FILES e))\<rparr>\<rparr>)"
    and "getUsedBytes1 P e =
           (Returns (stored_bytes (FILES e)),
            e\<lparr>FILES_KV := (FILES_KV e)\<lparr>used_bytes := Some (stored_bytes (FILES e))\<rparr>\<rparr>)"
proof -
  have "sum_listing P e None 0 = Returns (stored_bytes (FILES e))"
    using assms(2,3) by (intro sum_listing_all) (simp_all add: no_faultsD)
  then show "getUsedBytes2 P e =
           (stored_bytes (FILES e),
            e\<lparr>FILES_KV := (FILES_KV e)\<lparr>used_bytes := Some (stored_bytes (FILES e))\<rparr>\<rparr>)"
    and "getUsedBytes1 P e =
           (Returns (stored_bytes (FILES e)),
            e\<lparr>FILES_KV := (FILES_KV e)\<lparr>used_bytes := Some (stored_bytes (FILES e))\<rparr>\<rparr>)"
    using assms(1,2)
    by (simp_all add: getUsedBytes2_def getUsedBytes1_def kv_get_used_def kv_put_used_def no_faultsD)
qed

text \<open>
  C1 (as stated, refuted): with 17 bytes in use, a batch of one 9.5 GiB file of a type that
  is not allowed reaches the limit, yet it is answered 415 and not with the quota error.
  A rejection can write the counter: when the cell is absent, the rejected request
  leaves it set to the 17 bytes it has listed. And with the counter 3 bytes below the
  limit, the batch of the declared sizes \<open>2^53\<close>, 1 and \<open>-(2^53 - 2)\<close>, which sum to 3,
  reaches the limit, yet it is not rejected: the worker adds the sizes up to 2.
\<close>

theorem C1_rejections_outside_the_claim:
  "BYTES_LIMIT \<le> fst (getUsedBytes2 table_platform scenario_env) +
      declared_bytes [\<lparr>fname = ''setup.exe'', fsize = 10200547328,
                       ftype = Some ''application/x-msdownload''\<rparr>] \<and>
   fst (fetch_upload_urls table_platform scenario_env
      [\<lparr>fname = ''setup.exe'', fsize = 10200547328,
        ftype = Some ''application/x-msdownload''\<rparr>] False) =
     Returns (415, Failure ''Unsupported type for setup.exe'') \<and>
   used_bytes (FILES_KV fresh_env) = None \<and>
   fetch_upload_urls table_platform fresh_env
      [\<lparr>fname = ''notes.txt'', fsize = 10200547328, ftype = Some ''text/plain''\<rparr>] False =
     (Returns (413, QuotaError 17 BYTES_LIMIT),
      fresh_env\<lparr>FILES_KV := \<lparr>used_bytes = Some 17, pending = Map.empty\<rparr>\<rparr>) \<and>
   admissible2 rounding_batch \<and>
   BYTES_LIMIT \<le> fst (getUsedBytes2 table_platform full_env) + declared_bytes rounding_batch \<and>
   \<not> quota_rejected (fst (fetch_upload_urls table_platform full_env rounding_batch False))"
proof -
  have used: "getUsedBytes2 table_platform scenario_env = (17, scenario_env)"
    by (rule getUsedBytes_present) (simp_all add: scenario_env_def table_platform_def)
  have bad: "\<not> isAllowed2 (Some ''application/x-msdownload'') (Some ''setup.exe'')"
    by (simp add: isAllowed2_def or_empty_def trim_def is_space_def ALLOWED_MIME_def
        ALLOWED_EXT_def toLowerCase_def lower_char_def slice_def Let_def)
  have good: "isAllowed2 (Some ''text/plain'') (Some ''notes.txt'')"
    by (simp add: isAllowed2_def or_empty_def trim_def is_space_def ALLOWED_MIME_def Let_def)
  have asc: "ascending (FILES fresh_env)"
    using scenario_ascending by (simp add: fresh_env_def)
  have sb: "stored_bytes (FILES fresh_env) = 17"
    by (simp add: fresh_env_def scenario_env_def scenario_bucket_def stored_bytes_def
        size_of_def stored_def)
  have fresh: "getUsedBytes2 table_platform fresh_env =
      (17, fresh_env\<lparr>FILES_KV := \<lparr>used_bytes = Some 17, pending = Map.empty\<rparr>\<rparr>)"
    using getUsedBytes_absent(1) [OF _ table_platform_no_faults asc] sb
    by (simp add: fresh_env_def)
  have full: "getUsedBytes2 table_platform full_env = (10200547325, full_env)"
    by (rule getUsedBytes_present) (simp_all add: full_env_def table_platform_def)
  have adm: "admissible2 rounding_batch"
    by (simp add: admissible2_def rounding_batch_def MAX_FILES_PER_BATCH_def isAllowed2_def
        or_empty_def trim_def is_space_def ALLOWED_MIME_def Let_def)
  have "\<not> reaches_limit 10200547325 (declared_total rounding_batch)"
    by (simp add: reaches_limit_def sum_in_double_precision round_double_small BYTES_LIMIT_def)
  then have admitted:
    "\<not> quota_rejected (fst (fetch_upload_urls table_platform full_env rounding_batch False))"
    by (simp add: upload_urls_quota_iff full)
  have reached:
    "BYTES_LIMIT \<le> fst (getUsedBytes2 table_platform full_env) + declared_bytes rounding_batch"
    by (simp add: full sum_in_double_precision BYTES_LIMIT_def)
  have "BYTES_LIMIT \<le> fst (getUsedBytes2 table_platform scenario_env) +
      declared_bytes [\<lparr>fname = ''setup.exe'', fsize = 10200547328,
                       ftype = Some ''application/x-msdownload''\<rparr>] \<and>
   fst (fetch_upload_urls table_platform scenario_env
      [\<lparr>fname = ''setup.exe'', fsize = 10200547328,
        ftype = Some ''application/x-msdownload''\<rparr>] False) =
     Returns (415, Failure ''Unsupported type for setup.exe'') \<and>
   used_bytes (FILES_KV fresh_env) = None \<and>
   fetch_upload_urls table_platform fresh_env
      [\<lparr>fname = ''notes.txt'', fsize = 10200547328, ftype = Some ''text/plain''\<rparr>] False =
     (Returns (413, QuotaError 17 BYTES_LIMIT),
      fresh_env\<lparr>FILES_KV := \<lparr>used_bytes = Some 17, pending = Map.empty\<rparr>\<rparr>)"
    using used bad good fresh
    by (simp add: fetch_upload_urls_def declared_bytes_def MAX_FILES_PER_BATCH_def
        BYTES_LIMIT_def fresh_env_def round_double_def)
  with adm reached admitted show ?thesis by simp
qed

text \<open>
  C1 (amended): a batch that has passed the validation (not empty, at most 20 files, every
  file of an allowed type) is rejected with the quota error, status 413 and reason
  \<^verbatim>\<open>quota\<close>, exactly when the bytes read by \<^verbatim>\<open>getUsedBytes\<close> plus the bytes of the batch
  reach the limit of 9.5 GiB; a batch that fails the validation never gets the quota
  error. In the presigning worker the bytes of the batch are the sizes the client
  declares, added up in double precision as the worker adds them; the sum is the exact
  one when every declared size and the bytes in use are of magnitude at most \<open>2^48\<close>. In
  the server-mediated worker they are the sizes of the files of the form. A rejection
  returns right after the counter has been read: no URL is presigned, the store is not
  touched and the counter is not adjusted. The only write that can occur is that of
  \<^verbatim>\<open>getUsedBytes\<close> itself, which sets the counter cell to the value it has just listed;
  when the cell is present and its read does not throw, a rejection leaves the bindings
  exactly as they were.
\<close>

theorem C1_quota_gate:
  "quota_rejected (fst (fetch_upload_urls P e files pin)) =
     (admissible2 files \<and> reaches_limit (fst (getUsedBytes2 P e)) (declared_total files)) \<and>
   ((\<forall>f\<in>set files. \<bar>fsize f\<bar> \<le> 2 ^ 48) \<and> \<bar>fst (getUsedBytes2 P e)\<bar> \<le> 2 ^ 48 \<longrightarrow>
      quota_rejected (fst (fetch_upload_urls P e files pin)) =
        (admissible2 files \<and> BYTES_LIMIT \<le> fst (getUsedBytes2 P e) + declared_bytes files)) \<and>
   quota_rejected (fst (handleUpload P e entries pin)) =
     (admissible1 entries \<and>
      (case fst (getUsedBytes1 P e) of
         Throws \<Rightarrow> False
       | Returns used \<Rightarrow> BYTES_LIMIT \<le> used + batch_bytes entries)) \<and>
   (quota_rejected (fst (fetch_upload_urls P e files pin)) \<longrightarrow>
      fetch_upload_urls P e files pin =
        (Returns (413, QuotaError (fst (getUsedBytes2 P e)) BYTES_LIMIT), snd (getUsedBytes2 P e)) \<and>
      only_initialised e (fst (getUsedBytes2 P e)) (snd (fetch_upload_urls P e files pin))) \<and>
   (quota_rejected (fst (handleUpload P e entries pin)) \<longrightarrow>
      (\<exists>used. fst (getUsedBytes1 P e) = Returns used \<and>
        handleUpload P e entries pin =
          (Returns (413, QuotaError used BYTES_LIMIT), snd (getUsedBytes1 P e)) \<and>
        only_initialised e used (snd (handleUpload P e entries pin)))) \<and>
   (used_bytes (FILES_KV e) = Some u \<and> \<not> fails P (KV_get ''used_bytes'') \<longrightarrow>
      fst (getUsedBytes2 P e) = u \<and> fst (getUsedBytes1 P e) = Returns u \<and>
      (quota_rejected (fst (fetch_upload_urls P e files pin)) \<longrightarrow>
         snd (fetch_upload_urls P e files pin) = e) \<and>
      (quota_rejected (fst (handleUpload P e entries pin)) \<longrightarrow>
         snd (handleUpload P e entries pin) = e))"
proof -
  have a: "quota_rejected (fst (fetch_upload_urls P e files pin)) =
     (admissible2 files \<and> reaches_limit (fst (getUsedBytes2 P e)) (declared_total files))"
    by (rule upload_urls_quota_iff)
  have a': "quota_rejected (fst (fetch_upload_urls P e files pin)) =
        (admissible2 files \<and> BYTES_LIMIT \<le> fst (getUsedBytes2 P e) + declared_bytes files)"
    if "(\<forall>f\<in>set files. \<bar>fsize f\<bar> \<le> 2 ^ 48) \<and> \<bar>fst (getUsedBytes2 P e)\<bar> \<le> 2 ^ 48"
  proof (cases "admissible2 files")
    case True
    then have "length files \<le> MAX_FILES_PER_BATCH" by (simp add: admissible2_def)
    with that have "reaches_limit (fst (getUsedBytes2 P e)) (declared_total files) =
        (BYTES_LIMIT \<le> fst (getUsedBytes2 P e) + declared_bytes files)"
      by (intro reaches_limit_exact) simp_all
    with a show ?thesis by simp
  next
    case False
    with a show ?thesis by simp
  qed
  have b: "quota_rejected (fst (handleUpload P e entries pin)) =
     (admissible1 entries \<and>
      (case fst (getUsedBytes1 P e) of
         Throws \<Rightarrow> False
       | Returns used \<Rightarrow> BYTES_LIMIT \<le> used + batch_bytes entries))"
    by (rule upload_quota_iff)
  have c: "fetch_upload_urls P e files pin =
        (Returns (413, QuotaError (fst (getUsedBytes2 P e)) BYTES_LIMIT), snd (getUsedBytes2 P e)) \<and>
      only_initialised e (fst (getUsedBytes2 P e)) (snd (fetch_upload_urls P e files pin))"
    if "quota_rejected (fst (fetch_upload_urls P e files pin))"
    using that a upload_urls_rejection [of files P e pin] getUsedBytes2_effect [of e P] by simp
  have d: "\<exists>used. fst (getUsedBytes1 P e) = Returns used \<and>
        handleUpload P e entries pin =
          (Returns (413, QuotaError used BYTES_LIMIT), snd (getUsedBytes1 P e)) \<and>
        only_initialised e used (snd (handleUpload P e entries pin))"
    if "quota_rejected (fst (handleUpload P e entries pin))"
  proof -
    from that b obtain used where adm: "admissible1 entries"
      and g: "fst (getUsedBytes1 P e) = Returns used"
      and lim: "BYTES_LIMIT \<le> used + batch_bytes entries"
      by (cases "fst (getUsedBytes1 P e)") auto
    from g have "getUsedBytes1 P e = (Returns used, snd (getUsedBytes1 P e))"
      by (cases "getUsedBytes1 P e") simp
    from upload_rejection [OF adm this lim, of pin] g getUsedBytes1_effect [OF g]
    show ?thesis by simp
  qed
  have f: "fst (getUsedBytes2 P e) = u \<and> fst (getUsedBytes1 P e) = Returns u \<and>
      (quota_rejected (fst (fetch_upload_urls P e files pin)) \<longrightarrow>
         snd (fetch_upload_urls P e files pin) = e) \<and>
      (quota_rejected (fst (handleUpload P e entries pin)) \<longrightarrow>
         snd (handleUpload P e entries pin) = e)"
    if "used_bytes (FILES_KV e) = Some u \<and> \<not> fails P (KV_get ''used_bytes'')"
    using that c d getUsedBytes_present [of e u P] by auto
  from a a' b c d f show ?thesis by blast
qed

theorem C1_quota_gate_witness:
  "fetch_upload_urls table_platform full_env
      [\<lparr>fname = ''notes.txt'', fsize = 3, ftype = Some ''text/plain''\<rparr>] False =
     (Returns (413, QuotaError 10200547325 BYTES_LIMIT), full_env) \<and>
   handleUpload table_platform full_env
      [FileEntry \<lparr>file_name = ''notes.txt'', file_type = ''text/plain'', file_bytes = [7, 7, 7]\<rparr>]
      False =
     (Returns (413, QuotaError 10200547325 BYTES_LIMIT), full_env) \<and>
   \<not> quota_rejected (fst (fetch_upload_urls table_platform full_env
      [\<lparr>fname = ''notes.txt'', fsize = 2, ftype = Some ''text/plain''\<rparr>] False))"
proof -
  let ?three = "[\<lparr>fname = ''notes.txt'', fsize = 3, ftype = Some ''text/plain''\<rparr>]"
  let ?two = "[\<lparr>fname = ''notes.txt'', fsize = 2, ftype = Some ''text/plain''\<rparr>]"
  let ?form = "[FileEntry \<lparr>file_name = ''notes.txt'', file_type = ''text/plain'',
      file_bytes = [7, 7, 7]\<rparr>]"
  have cell: "used_bytes (FILES_KV full_env) = Some 10200547325 \<and>
      \<not> fails table_platform (KV_get ''used_bytes'')"
    by (simp add: full_env_def table_platform_def)
  have adm: "admissible2 ?three" "admissible2 ?two" "admissible1 ?form"
    by (simp_all add: admissible2_def admissible1_def MAX_FILES_PER_BATCH_def isAllowed2_def
        isAllowed1_def or_empty_def trim_def is_space_def ALLOWED_MIME_def Let_def)
  have bytes: "declared_bytes ?three = 3" "declared_bytes ?two = 2" "batch_bytes ?form = 3"
    by (simp_all add: declared_bytes_def batch_bytes_def)
  note three = C1_quota_gate [where P = table_platform and e = full_env and files = ?three
      and entries = ?form and pin = False and u = 10200547325]
  note two = C1_quota_gate [where P = table_platform and e = full_env and files = ?two
      and entries = ?form and pin = False and u = 10200547325]
  from three cell have used: "fst (getUsedBytes2 table_platform full_env) = 10200547325"
    "fst (getUsedBytes1 table_platform full_env) = Returns 10200547325"
    by blast+
  have small: "\<forall>f\<in>set ?three. \<bar>fsize f\<bar> \<le> 2 ^ 48" "\<forall>f\<in>set ?two. \<bar>fsize f\<bar> \<le> 2 ^ 48"
    "\<bar>10200547325 :: int\<bar> \<le> 2 ^ 48"
    by simp_all
  from three have "(\<forall>f\<in>set ?three. \<bar>fsize f\<bar> \<le> 2 ^ 48) \<and>
      \<bar>fst (getUsedBytes2 table_platform full_env)\<bar> \<le> 2 ^ 48 \<longrightarrow>
      quota_rejected (fst (fetch_upload_urls table_platform full_env ?three False)) =
        (admissible2 ?three \<and>
         BYTES_LIMIT \<le> fst (getUsedBytes2 table_platform full_env) + declared_bytes ?three)"
    by blast
  with used adm bytes small
  have r2: "quota_rejected (fst (fetch_upload_urls table_platform full_env ?three False))"
    by (simp add: BYTES_LIMIT_def)
  from three have "quota_rejected (fst (handleUpload table_platform full_env ?form False)) =
      (admissible1 ?form \<and>
       (case fst (getUsedBytes1 table_platform full_env) of
          Throws \<Rightarrow> False
        | Returns used \<Rightarrow> BYTES_LIMIT \<le> used + batch_bytes ?form))"
    by blast
  with used adm bytes
  have r1: "quota_rejected (fst (handleUpload table_platform full_env ?form False))"
    by (simp add: BYTES_LIMIT_def)
  from two have "(\<forall>f\<in>set ?two. \<bar>fsize f\<bar> \<le> 2 ^ 48) \<and>
      \<bar>fst (getUsedBytes2 table_platform full_env)\<bar> \<le> 2 ^ 48 \<longrightarrow>
      quota_rejected (fst (fetch_upload_urls table_platform full_env ?two False)) =
        (admissible2 ?two \<and>
         BYTES_LIMIT \<le> fst (getUsedBytes2 table_platform full_env) + declared_bytes ?two)"
    by blast
  with used adm bytes small
  have n2: "\<not> quota_rejected (fst (fetch_upload_urls table_platform full_env ?two False))"
    by (simp add: BYTES_LIMIT_def)
  from three cell r2 have "snd (fetch_upload_urls table_platform full_env ?three False) = full_env"
    and "fetch_upload_urls table_platform full_env ?three False =
        (Returns (413, QuotaError (fst (getUsedBytes2 table_platform full_env)) BYTES_LIMIT),
         snd (getUsedBytes2 table_platform full_env))"
    by blast+
  with used have v2: "fetch_upload_urls table_platform full_env ?three False =
     (Returns (413, QuotaError 10200547325 BYTES_LIMIT), full_env)"
    by (metis prod.collapse prod.inject)
  from three cell r1 have "snd (handleUpload table_platform full_env ?form False) = full_env"
    and "\<exists>used. fst (getUsedBytes1 table_platform full_env) = Returns used \<and>
        handleUpload table_platform full_env ?form False =
          (Returns (413, QuotaError used BYTES_LIMIT), snd (getUsedBytes1 table_platform full_env))"
    by blast+
  with used have v1: "handleUpload table_platform full_env ?form False =
     (Returns (413, QuotaError 10200547325 BYTES_LIMIT), full_env)"
    by (metis outcome.inject prod.collapse prod.inject)
  from v2 v1 n2 show ?thesis by simp
qed

lemma first_listing_fails: "fails P (R2_list None) \<Longrightarrow> sum_listing P e None 0 = Throws"
  by (subst sum_listing.simps) (simp add: r2_list_def)

text \<open>
  C10: in the presigning worker, when the read of the counter cell throws and the listing
  throws too, \<^verbatim>\<open>getUsedBytes\<close> returns 0 and leaves the bindings as they were. The quota
  route then reports 0 bytes in use and \<^verbatim>\<open>okToUpload = true\<close>, and a batch is rejected
  for quota only when its own declared bytes, as the worker adds them up, reach the limit,
  whatever is stored; when every declared size is of magnitude at most \<open>2^48\<close> that sum
  is the exact one. The listing throws, in particular, when its first call throws.
\<close>

theorem C10_quota_gate_fails_open:
  assumes "fails P (KV_get ''used_bytes'')" and "sum_listing P e None 0 = Throws"
  shows "getUsedBytes2 P e = (0, e) \<and>
         fetch_quota P e = (Returns (200, QuotaInfo 0 BYTES_LIMIT True), e) \<and>
         quota_rejected (fst (fetch_upload_urls P e files pin)) =
           (admissible2 files \<and> reaches_limit 0 (declared_total files)) \<and>
         ((\<forall>f\<in>set files. \<bar>fsize f\<bar> \<le> 2 ^ 48) \<longrightarrow>
            quota_rejected (fst (fetch_upload_urls P e files pin)) =
              (admissible2 files \<and> BYTES_LIMIT \<le> declared_bytes files)) \<and>
         (fails P (R2_list None) \<longrightarrow> sum_listing P e None 0 = Throws)"
proof -
  have g: "getUsedBytes2 P e = (0, e)"
    using assms by (simp add: getUsedBytes2_def kv_get_used_def)
  then have q: "fetch_quota P e = (Returns (200, QuotaInfo 0 BYTES_LIMIT True), e)"
    by (simp add: fetch_quota_def BYTES_LIMIT_def)
  have r: "quota_rejected (fst (fetch_upload_urls P e files pin)) =
           (admissible2 files \<and> reaches_limit 0 (declared_total files))"
    using upload_urls_quota_iff [of P e files pin] g by simp
  have x: "quota_rejected (fst (fetch_upload_urls P e files pin)) =
              (admissible2 files \<and> BYTES_LIMIT \<le> declared_bytes files)"
    if "\<forall>f\<in>set files. \<bar>fsize f\<bar> \<le> 2 ^ 48"
  proof (cases "admissible2 files")
    case True
    then have "length files \<le> MAX_FILES_PER_BATCH" by (simp add: admissible2_def)
    with that have "reaches_limit 0 (declared_total files) = (BYTES_LIMIT \<le> 0 + declared_bytes files)"
      by (intro reaches_limit_exact) simp_all
    with r show ?thesis by simp
  next
    case False
    with r show ?thesis by simp
  qed
  from g q r x first_listing_fails [of P e] show ?thesis by blast
qed

theorem C10_fails_open_witness:
  "stored_bytes (FILES full_env) = 17 \<and>
   used_bytes (FILES_KV full_env) = Some 10200547325 \<and>
   getUsedBytes2 outage full_env = (0, full_env) \<and>
   fetch_quota outage full_env = (Returns (200, QuotaInfo 0 BYTES_LIMIT True), full_env) \<and>
   admissible2 [\<lparr>fname = ''notes.txt'', fsize = 10200547327, ftype = Some ''text/plain''\<rparr>] \<and>
   \<not> quota_rejected (fst (fetch_upload_urls outage full_env
      [\<lparr>fname = ''notes.txt'', fsize = 10200547327, ftype = Some ''text/plain''\<rparr>] False))"
proof -
  let ?files = "[\<lparr>fname = ''notes.txt'', fsize = 10200547327, ftype = Some ''text/plain''\<rparr>]"
  have kv: "fails outage (KV_get ''used_bytes'')" and ls: "fails outage (R2_list None)"
    by (simp_all add: outage_def)
  have thrown: "sum_listing outage full_env None 0 = Throws"
    using ls by (rule first_listing_fails)
  have "stored_bytes (FILES full_env) = 17" and "used_bytes (FILES_KV full_env) = Some 10200547325"
    by (simp_all add: full_env_def scenario_env_def scenario_bucket_def stored_bytes_def
        size_of_def stored_def)
  moreover have "admissible2 ?files"
    by (simp add: admissible2_def MAX_FILES_PER_BATCH_def isAllowed2_def or_empty_def trim_def
        is_space_def ALLOWED_MIME_def Let_def)
  moreover have "\<not> BYTES_LIMIT \<le> declared_bytes ?files"
    by (simp add: declared_bytes_def BYTES_LIMIT_def)
  moreover have "\<not> quota_rejected (fst (fetch_upload_urls outage full_env ?files False))"
  proof -
    have small: "\<forall>f\<in>set ?files. \<bar>fsize f\<bar> \<le> 2 ^ 48" by simp
    from C10_quota_gate_fails_open [OF kv thrown, of ?files False]
    have "(\<forall>f\<in>set ?files. \<bar>fsize f\<bar> \<le> 2 ^ 48) \<longrightarrow>
        quota_rejected (fst (fetch_upload_urls outage full_env ?files False)) =
          (admissible2 ?files \<and> BYTES_LIMIT \<le> declared_bytes ?files)"
      by blast
    with small have "quota_rejected (fst (fetch_upload_urls outage full_env ?files False)) =
          (admissible2 ?files \<and> BYTES_LIMIT \<le> declared_bytes ?files)"
      by blast
    then show ?thesis by (simp add: declared_bytes_def BYTES_LIMIT_def)
  qed
  moreover from C10_quota_gate_fails_open [OF kv thrown, of ?files False]
  have "getUsedBytes2 outage full_env = (0, full_env)"
    and "fetch_quota outage full_env = (Returns (200, QuotaInfo 0 BYTES_LIMIT True), full_env)"
    by blast+
  ultimately show ?thesis by simp
qed

subsection \<open>Presigned URLs\<close>

lemma form_urlencode_names:
  "form_urlencode ''X-Amz-Algorithm'' = ''X-Amz-Algorithm''"
  "form_urlencode ''AWS4-HMAC-SHA256'' = ''AWS4-HMAC-SHA256''"
  "form_urlencode ''X-Amz-Credential'' = ''X-Amz-Credential''"
  "form_urlencode ''X-Amz-Date'' = ''X-Amz-Date''"
  "form_urlencode ''X-Amz-Expires'' = ''X-Amz-Expires''"
  "form_urlencode ''X-Amz-SignedHeaders'' = ''X-Amz-SignedHeaders''"
  "form_urlencode ''host'' = ''host''"
  by (simp_all add: form_urlencode_def alphanumeric_def)

lemma query_string_eq:
  "URLSearchParams_toString
     [(''X-Amz-Algorithm'', ''AWS4-HMAC-SHA256''),
      (''X-Amz-Credential'', accessKeyId opts @ ''/'' @ credential_scope P opts),
      (''X-Amz-Date'', amz_date P),
      (''X-Amz-Expires'', String_int (case expiresSec opts of None \<Rightarrow> 600 | Some x \<Rightarrow> x)),
      (''X-Amz-SignedHeaders'', ''host'')] = query_string P opts"
  by (simp add: URLSearchParams_toString_def query_string_def form_urlencode_names)

lemma presign_shape:
  "presignPutUrl P opts = unsigned_url P opts @ u8ToHex (signature_bytes P opts)"
  by (simp add: presignPutUrl_def Let_def unsigned_url_def query_string_def signature_bytes_def
      string_to_sign_def credential_scope_def amz_date_def region_of_def
      URLSearchParams_toString_def form_urlencode_names)

lemma unsigned_without_secret: "unsigned_url P (without_secret opts) = unsigned_url P opts"
  by (simp add: unsigned_url_def query_string_def credential_scope_def region_of_def
      without_secret_def)

lemma hex_digit_in: "length ds = 16 \<Longrightarrow> hex_digit ds n \<in> set ds"
  by (simp add: hex_digit_def)

lemma u8ToHex_digits: "set (u8ToHex bs) \<subseteq> set ''0123456789abcdef''"
proof -
  have "hex_digit ''0123456789abcdef'' n \<in> set ''0123456789abcdef''" for n
    by (rule hex_digit_in) simp
  then show ?thesis unfolding u8ToHex_def by (induction bs) auto
qed

lemma u8ToHex_length: "length (u8ToHex bs) = 2 * length bs"
  by (induction bs) (simp_all add: u8ToHex_def)

lemma route_call:
  "fst (fetch_upload_urls table_platform scenario_env
      [\<lparr>fname = ''fedcba9876543210fedcba9876543210fedcba9876543210fedcba9876543210'',
        fsize = 1, ftype = Some ''text/plain''\<rparr>] False) =
   Returns (200, UploadUrls
      [\<lparr>slot_key = objectKey leaky_opts,
        slot_url = presignPutUrl table_platform leaky_opts,
        slot_name = ''fedcba9876543210fedcba9876543210fedcba9876543210fedcba9876543210'',
        slot_size = Num 1, slot_type = Some ''text/plain''\<rparr>] False)"
proof -
  have used: "getUsedBytes2 table_platform scenario_env = (17, scenario_env)"
    by (rule getUsedBytes_present) (simp_all add: scenario_env_def table_platform_def)
  have ok: "isAllowed2 (Some ''text/plain'')
      (Some ''fedcba9876543210fedcba9876543210fedcba9876543210fedcba9876543210'')"
    by (simp add: isAllowed2_def or_empty_def trim_def is_space_def ALLOWED_MIME_def Let_def)
  have uuid: "randomUUID table_platform 0 = ''7d9f2c1e-0000-4000-8000-000000000000''"
    by (simp add: table_platform_def)
  have opts: "\<lparr>accountId = ''acct'', bucketName = ''felicity-files'',
      objectKey = ''7d9f2c1e-0000-4000-8000-000000000000/fedcba9876543210fedcba9876543210fedcba9876543210fedcba9876543210'',
      accessKeyId = ''0123456789abcdef0123456789abcdef'',
      secretAccessKey = ''fedcba9876543210fedcba9876543210fedcba9876543210fedcba9876543210'',
      region = None, expiresSec = Some 600\<rparr> = leaky_opts"
    by (simp add: leaky_opts_def)
  show ?thesis
    using used ok
    by (simp add: fetch_upload_urls_def MAX_FILES_PER_BATCH_def BYTES_LIMIT_def Let_def uuid
        or_empty_def scenario_env_def opts round_double_def)
      (simp add: leaky_opts_def)
qed

text \<open>
  C9 (as stated, refuted): the key of an object ends in the name the client gave the file,
  and the key is written into the URL. For a file named like the secret, the presigning
  route returns a URL with the secret in its path.
\<close>

theorem C9_secret_in_the_path:
  "fst (fetch_upload_urls table_platform scenario_env
      [\<lparr>fname = ''fedcba9876543210fedcba9876543210fedcba9876543210fedcba9876543210'',
        fsize = 1, ftype = Some ''text/plain''\<rparr>] False) =
   Returns (200, UploadUrls
      [\<lparr>slot_key = objectKey leaky_opts,
        slot_url = presignPutUrl table_platform leaky_opts,
        slot_name = ''fedcba9876543210fedcba9876543210fedcba9876543210fedcba9876543210'',
        slot_size = Num 1, slot_type = Some ''text/plain''\<rparr>] False) \<and>
   R2_SECRET_ACCESS_KEY scenario_env = Some (secretAccessKey leaky_opts) \<and>
   sublist (secretAccessKey leaky_opts) (presignPutUrl table_platform leaky_opts)"
proof -
  have "presignPutUrl table_platform leaky_opts =
      ''https://acct.r2.cloudflarestorage.com/felicity-files/7d9f2c1e-0000-4000-8000-000000000000%2F'' @
      secretAccessKey leaky_opts @
      (''?'' @ query_string table_platform leaky_opts @ ''&X-Amz-Signature='' @
       u8ToHex (signature_bytes table_platform leaky_opts))"
    by (simp add: presign_shape unsigned_url_def)
      (simp add: leaky_opts_def encodeURIComponent_def alphanumeric_def utf8_def percent_def
        hex_digit_def)
  then have "sublist (secretAccessKey leaky_opts) (presignPutUrl table_platform leaky_opts)"
    by (simp only: sublist_appendI)
  moreover have "R2_SECRET_ACCESS_KEY scenario_env = Some (secretAccessKey leaky_opts)"
    by (simp add: scenario_env_def leaky_opts_def)
  ultimately show ?thesis using route_call by simp
qed

text \<open>
  C9 (amended): \<^verbatim>\<open>presignPutUrl\<close> never writes the secret access key into the URL. The URL
  is the host, the bucket, the encoded key, the query string (algorithm id, access key id
  with the credential scope, issue time stamp, expiry window, signed-header list) and the
  signature, in that order; everything before the signature is computed without the
  secret, and the signature is the hexadecimal text of the HMAC chain that starts from the
  secret. The text of the secret can still be found in the URL when another input, such
  as the object key, contains it.
\<close>

theorem C9_url_built_without_the_secret:
  "presignPutUrl P opts =
     unsigned_url P (without_secret opts) @ u8ToHex (signature_bytes P opts) \<and>
   secretAccessKey (without_secret opts) = [] \<and>
   set (u8ToHex (signature_bytes P opts)) \<subseteq> set ''0123456789abcdef'' \<and>
   length (u8ToHex (signature_bytes P opts)) = 2 * length (signature_bytes P opts)"
proof (intro conjI)
  show "presignPutUrl P opts =
     unsigned_url P (without_secret opts) @ u8ToHex (signature_bytes P opts)"
    by (simp only: presign_shape unsigned_without_secret)
  show "secretAccessKey (without_secret opts) = []"
    by (simp add: without_secret_def)
  show "set (u8ToHex (signature_bytes P opts)) \<subseteq> set ''0123456789abcdef''"
    by (rule u8ToHex_digits)
  show "length (u8ToHex (signature_bytes P opts)) = 2 * length (signature_bytes P opts)"
    by (rule u8ToHex_length)
qed

subsection \<open>Adjustments of the counter\<close>

lemma counter_set [simp]:
  "counter (e\<lparr>FILES_KV := (FILES_KV e)\<lparr>used_bytes := Some n\<rparr>\<rparr>) = n"
  by (simp add: counter_def Number_or_0_def)

lemma bump_each2_sum:
  "no_faults P \<Longrightarrow> \<exists>e'. bump_each2 P e deltas = Returns e' \<and> counter e' = counter e + sum_list deltas"
  by (induction deltas arbitrary: e) (simp_all add: bump2_counter, fastforce)

lemma two_steps_are_one_bump:
  "no_faults P \<Longrightarrow>
   bumpUsedBytes2 P e delta =
     Returns (e\<lparr>FILES_KV := (FILES_KV e)\<lparr>used_bytes :=
       fst (bump_step (fst (bump_step (used_bytes (FILES_KV e)) (Start delta)))
                      (snd (bump_step (used_bytes (FILES_KV e)) (Start delta))))\<rparr>\<rparr>)"
  by (simp add: bump2_counter counter_def)

lemma run_schedule_append:
  "run_schedule (xs @ ys) s = run_schedule ys (run_schedule xs s)"
  by (simp add: run_schedule_def)

lemma one_task_in_a_row:
  assumes "i < length tasks" and "tasks ! i = Start d"
  shows "run_schedule [i, i] (c, tasks) = (Some (Number_or_0 c + d), tasks[i := Finished])"
  using assms by (simp add: run_schedule_def schedule_step_def)

lemma tasks_in_sequence:
  assumes "distinct order"
    and "\<forall>i\<in>set order. i < length tasks \<and> tasks ! i = Start (deltas ! i)"
  shows "run_schedule (in_sequence order) (c, tasks) =
     (if order = [] then c else Some (Number_or_0 c + sum_list (map ((!) deltas) order)),
      fold (\<lambda>i ts. ts[i := Finished]) order tasks)"
  using assms
proof (induction order arbitrary: c tasks)
  case Nil
  show ?case by (simp add: in_sequence_def run_schedule_def)
next
  case (Cons i order)
  from Cons.prems have i: "i < length tasks" "tasks ! i = Start (deltas ! i)"
    and d: "distinct order" and ni: "i \<notin> set order"
    and rest: "\<forall>j\<in>set order. j < length tasks \<and> tasks ! j = Start (deltas ! j)"
    by simp_all
  have rest': "\<forall>j\<in>set order. j < length (tasks[i := Finished]) \<and>
      (tasks[i := Finished]) ! j = Start (deltas ! j)"
  proof
    fix j assume j: "j \<in> set order"
    with ni have "i \<noteq> j" by blast
    then have "(tasks[i := Finished]) ! j = tasks ! j" by (rule nth_list_update_neq)
    with rest j show "j < length (tasks[i := Finished]) \<and>
        (tasks[i := Finished]) ! j = Start (deltas ! j)"
      by simp
  qed
  have "run_schedule (in_sequence (i # order)) (c, tasks) =
      run_schedule (in_sequence order) (run_schedule [i, i] (c, tasks))"
    using run_schedule_append [of "[i, i]" "in_sequence order" "(c, tasks)"]
    by (simp add: in_sequence_def)
  also have "\<dots> = run_schedule (in_sequence order)
      (Some (Number_or_0 c + deltas ! i), tasks[i := Finished])"
    by (simp only: one_task_in_a_row [OF i])
  also have "\<dots> =
     (if order = [] then Some (Number_or_0 c + deltas ! i)
      else Some (Number_or_0 (Some (Number_or_0 c + deltas ! i)) +
                 sum_list (map ((!) deltas) order)),
      fold (\<lambda>i ts. ts[i := Finished]) order (tasks[i := Finished]))"
    by (rule Cons.IH [OF d rest'])
  finally show ?case by (simp add: Number_or_0_def)
qed

lemma fold_finished_length [simp]:
  "length (fold (\<lambda>i ts. ts[i := Finished]) order tasks) = length tasks"
  by (induction order arbitrary: tasks) simp_all

lemma fold_finished_nth:
  "j < length tasks \<Longrightarrow>
   fold (\<lambda>i ts. ts[i := Finished]) order tasks ! j =
     (if j \<in> set order then Finished else tasks ! j)"
proof (induction order arbitrary: tasks)
  case Nil
  show ?case by simp
next
  case (Cons i order)
  then show ?case by (cases "i = j") (auto simp: nth_list_update)
qed

lemma all_tasks_in_sequence:
  assumes "mset order = mset [0..<length deltas]"
  shows "Number_or_0 (fst (run_schedule (in_sequence order) (c, map Start deltas))) =
           Number_or_0 c + sum_list deltas"
    and "snd (run_schedule (in_sequence order) (c, map Start deltas)) =
           map (\<lambda>d. Finished) deltas"
proof -
  from assms have d: "distinct order"
    by (metis distinct_upt mset_eq_imp_distinct_iff)
  from assms have s: "set order = {0..<length deltas}"
    by (metis mset_eq_setD set_upt)
  then have t: "\<forall>i\<in>set order. i < length (map Start deltas) \<and>
      map Start deltas ! i = Start (deltas ! i)"
    by simp
  have "sum_list (map ((!) deltas) order) = sum_mset (image_mset ((!) deltas) (mset order))"
    by (metis mset_map sum_mset_sum_list)
  also have "\<dots> = sum_mset (image_mset ((!) deltas) (mset [0..<length deltas]))"
    by (simp only: assms)
  also have "\<dots> = sum_list (map ((!) deltas) [0..<length deltas])"
    by (metis mset_map sum_mset_sum_list)
  also have "\<dots> = sum_list deltas" by (simp only: map_nth)
  finally have sum: "sum_list (map ((!) deltas) order) = sum_list deltas" .
  note run = tasks_in_sequence [OF d t, of c]
  show "Number_or_0 (fst (run_schedule (in_sequence order) (c, map Start deltas))) =
           Number_or_0 c + sum_list deltas"
  proof (cases "order = []")
    case True
    with s have "deltas = []" by simp
    with True run show ?thesis by simp
  next
    case False
    with run sum show ?thesis by (simp add: Number_or_0_def)
  qed
  have "fold (\<lambda>i ts. ts[i := Finished]) order (map Start deltas) = map (\<lambda>d. Finished) deltas"
    by (rule nth_equalityI) (simp_all add: fold_finished_nth s)
  with run show "snd (run_schedule (in_sequence order) (c, map Start deltas)) =
           map (\<lambda>d. Finished) deltas"
    by simp
qed

text \<open>
  C6 (as stated, refuted): the cell holds 100 and two adjustments, of 5 and of 7, overlap:
  both read 100, then both write. The cell ends at 107, not at 112: the update of the
  first writer is lost.
\<close>

theorem C6_overlapping_adjustments_lose_an_update:
  "run_schedule [0, 1, 0, 1] (Some 100, [Start 5, Start 7]) = (Some 107, [Finished, Finished]) \<and>
   (107 :: int) \<noteq> 100 + (5 + 7)"
  by (simp add: run_schedule_def schedule_step_def Number_or_0_def)

text \<open>
  C6 (amended): in the presigning worker an adjustment is a read of the cell followed by a
  write. When the adjustments run one after another, each taking its two steps before the
  next one begins, in whatever order, every adjustment finishes and the counter ends at
  its initial value plus the sum of the deltas. When no call throws, the two steps
  together have the effect of \<^verbatim>\<open>bumpUsedBytes\<close>, and calls of \<^verbatim>\<open>bumpUsedBytes\<close> made one
  after another leave the counter at its initial value plus the sum of the deltas.
\<close>

theorem C6_adjustments_in_sequence_add_up:
  "(mset order = mset [0..<length deltas] \<longrightarrow>
      Number_or_0 (fst (run_schedule (in_sequence order) (c, map Start deltas))) =
        Number_or_0 c + sum_list deltas \<and>
      snd (run_schedule (in_sequence order) (c, map Start deltas)) = map (\<lambda>d. Finished) deltas) \<and>
   (no_faults P \<longrightarrow>
      (\<exists>e'. bump_each2 P e deltas = Returns e' \<and> counter e' = counter e + sum_list deltas) \<and>
      bumpUsedBytes2 P e delta =
        Returns (e\<lparr>FILES_KV := (FILES_KV e)\<lparr>used_bytes :=
          fst (bump_step (fst (bump_step (used_bytes (FILES_KV e)) (Start delta)))
                         (snd (bump_step (used_bytes (FILES_KV e)) (Start delta))))\<rparr>\<rparr>))"
  using all_tasks_in_sequence [of order deltas c] bump_each2_sum [of P e deltas]
    two_steps_are_one_bump [of P e delta]
  by blast

theorem C6_sequence_witness:
  "fst (run_schedule [2, 2, 0, 0, 1, 1] (Some 100, [Start 5, Start 7, Start (- 3)])) = Some 109 \<and>
   (\<exists>e'. bump_each2 table_platform scenario_env [5, 7, -3] = Returns e' \<and> counter e' = 26)"
proof -
  have ms: "mset [2, 0, 1] = mset [0..<length [5, 7, - 3 :: int]]"
    by (simp add: upt_rec)
  have sq: "in_sequence [2, 0, 1] = [2, 2, 0, 0, 1, 1]"
    by (simp add: in_sequence_def)
  have c: "counter scenario_env + sum_list [5, 7, -3] = 26"
    by (simp add: counter_def Number_or_0_def scenario_env_def)
  note inst = C6_adjustments_in_sequence_add_up [of "[2, 0, 1]" "[5, 7, - 3]" "Some 100"
      table_platform scenario_env 0]
  from inst ms have "Number_or_0 (fst (run_schedule (in_sequence [2, 0, 1])
      (Some 100, map Start [5, 7, - 3]))) = Number_or_0 (Some 100) + sum_list [5, 7, - 3]"
    by blast
  then have a: "Number_or_0 (fst (run_schedule [2, 2, 0, 0, 1, 1]
      (Some 100, [Start 5, Start 7, Start (- 3)]))) = 109"
    unfolding sq by (simp add: Number_or_0_def)
  have "fst (run_schedule [2, 2, 0, 0, 1, 1] (Some 100, [Start 5, Start 7, Start (- 3)])) \<noteq> None"
    by (simp add: run_schedule_def schedule_step_def)
  with a have 1: "fst (run_schedule [2, 2, 0, 0, 1, 1]
      (Some 100, [Start 5, Start 7, Start (- 3)])) = Some 109"
    by (auto simp: Number_or_0_def)
  from inst table_platform_no_faults
  have "\<exists>e'. bump_each2 table_platform scenario_env [5, 7, - 3] = Returns e' \<and>
      counter e' = counter scenario_env + sum_list [5, 7, - 3]"
    by blast
  with 1 show ?thesis by (simp only: c)
qed


end
